theory Spec2Isabelle
  imports Complex_Main
begin

section \<open>Option profit/loss projections: the pricing core of \<open>app.py\<close>\<close>

text \<open>
  The development embeds the numeric core of \<open>src/app.py\<close>: \<open>norm_cdf\<close>,
  \<open>black_scholes_price\<close>, \<open>build_price_points\<close> and the computation inside the
  \<open>index\<close> view after the form fields have been parsed.

  Python floats are modelled by the reals: every arithmetic operation is exact, and NaN,
  infinities and negative zero do not exist. Where the rounding of binary64 decides a
  property (whether the loop of \<open>build_price_points\<close> exits), the loop is parametrised
  by the rounding applied to each arithmetic result, and is used both with the identity
  (exact arithmetic) and with round-to-nearest-even to 53 significant bits.
\<close>

subsection \<open>Exceptions\<close>

datatype error = ZeroDivisionError | ValueError

subsection \<open>The error function and \<open>norm_cdf\<close>\<close>

text \<open>
  \<open>math.erf\<close> is the error function. It is defined by its Maclaurin series
  \<open>erf x = 2/\<surd>\<pi> \<cdot> \<Sum>n. (-1)\<^sup>n x\<^sup>2\<^sup>n\<^sup>+\<^sup>1 / (n! (2n+1))\<close>, which converges for every real \<open>x\<close>.
\<close>

definition erf_coeff :: "real \<Rightarrow> nat \<Rightarrow> real" where
  "erf_coeff x n = x ^ (2 * n + 1) / (fact n * real (2 * n + 1))"

definition erf :: "real \<Rightarrow> real" where
  "erf x = 2 / sqrt pi * (\<Sum>n. (- 1) ^ n * erf_coeff x n)"

text \<open>\<^verbatim>\<open>return 0.5 * (1.0 + math.erf(x / math.sqrt(2.0)))\<close>\<close>

definition norm_cdf :: "real \<Rightarrow> real" where
  "norm_cdf x = 0.5 * (1.0 + erf (x / sqrt 2.0))"

subsection \<open>\<open>black_scholes_price\<close>\<close>

text \<open>
  The function returns the intrinsic value when \<open>T \<le> 0\<close> or \<open>sigma \<le> 0\<close>. Otherwise
  \<open>S / K\<close> raises \<open>ZeroDivisionError\<close> for \<open>K = 0\<close> and \<open>math.log\<close> raises
  \<open>ValueError\<close> for an argument that is not positive; both are results of the model.
  The option type is the string the form sent: the code compares it with \<open>"call"\<close> only.
  The local variables \<open>d1\<close> and \<open>d2\<close> are functions of the arguments.
\<close>

definition d1 :: "real \<Rightarrow> real \<Rightarrow> real \<Rightarrow> real \<Rightarrow> real \<Rightarrow> real" where
  "d1 S K T r sigma = (ln (S / K) + (r + 0.5 * sigma * sigma) * T) / (sigma * sqrt T)"

definition d2 :: "real \<Rightarrow> real \<Rightarrow> real \<Rightarrow> real \<Rightarrow> real \<Rightarrow> real" where
  "d2 S K T r sigma = d1 S K T r sigma - sigma * sqrt T"

definition black_scholes_price ::
  "real \<Rightarrow> real \<Rightarrow> real \<Rightarrow> real \<Rightarrow> real \<Rightarrow> string \<Rightarrow> error + real" where
  "black_scholes_price S K T r sigma option_type =
     (if T \<le> 0 \<or> sigma \<le> 0 then
        (if option_type = ''call'' then Inr (max 0.0 (S - K))
         else Inr (max 0.0 (K - S)))
      else if K = 0 then Inl ZeroDivisionError
      else if S / K \<le> 0 then Inl ValueError
      else if option_type = ''call''
        then Inr (S * norm_cdf (d1 S K T r sigma)
                  - K * exp (- r * T) * norm_cdf (d2 S K T r sigma))
        else Inr (K * exp (- r * T) * norm_cdf (- d2 S K T r sigma)
                  - S * norm_cdf (- d1 S K T r sigma)))"

subsection \<open>\<open>build_price_points\<close>\<close>

text \<open>
  Python's \<open>round(x, n)\<close> on a float rounds the exact value of \<open>x\<close> to \<open>n\<close> decimals,
  ties going to the even neighbour.
\<close>

definition round_half_even :: "real \<Rightarrow> int" where
  "round_half_even y =
     (let f = \<lfloor>y\<rfloor>; d = y - of_int f
      in if d < 1 / 2 then f else if 1 / 2 < d then f + 1
         else if even f then f else f + 1)"

definition round_py :: "real \<Rightarrow> nat \<Rightarrow> real" where
  "round_py x ndigits = of_int (round_half_even (x * 10 ^ ndigits)) / 10 ^ ndigits"

text \<open>
  \<^verbatim>\<open>
  prices = []
  current = stock_min
  while current <= stock_max + 1e-9:
      prices.append(round(current, 2))
      current += step
  return prices
  \<close>
  The loop need not exit, so it is a partial function: \<open>None\<close> is "does not return".
  \<open>rnd\<close> is the rounding that the float arithmetic applies to each exact result and
  to each literal.
\<close>

partial_function (option) price_loop ::
  "(real \<Rightarrow> real) \<Rightarrow> real \<Rightarrow> real \<Rightarrow> real \<Rightarrow> real list \<Rightarrow> real list option" where
  "price_loop rnd stock_max step current prices =
     (if current \<le> rnd (stock_max + rnd (1 / 10 ^ 9))
      then price_loop rnd stock_max step (rnd (current + step))
             (prices @ [rnd (round_py current 2)])
      else Some prices)"

definition build_price_points_fp ::
  "(real \<Rightarrow> real) \<Rightarrow> real \<Rightarrow> real \<Rightarrow> real \<Rightarrow> real list option" where
  "build_price_points_fp rnd stock_min stock_max step = price_loop rnd stock_max step stock_min []"

text \<open>Exact arithmetic: nothing is rounded. The default \<open>step=1.0\<close> is passed by the caller.\<close>

definition build_price_points :: "real \<Rightarrow> real \<Rightarrow> real \<Rightarrow> real list option" where
  "build_price_points stock_min stock_max step =
     build_price_points_fp (\<lambda>x. x) stock_min stock_max step"

text \<open>
  Binary64 arithmetic: a result \<open>x \<noteq> 0\<close> with \<open>2\<^sup>e \<le> \<bar>x\<bar> < 2\<^sup>e\<^sup>+\<^sup>1\<close> is rounded to the nearest
  multiple of \<open>2\<^sup>e\<^sup>-\<^sup>5\<^sup>2\<close> (of \<open>2\<^sup>-\<^sup>1\<^sup>0\<^sup>7\<^sup>4\<close> in the subnormal range), ties to the even
  significand. Overflow to infinity is not modelled.
\<close>

definition binary64 :: "real \<Rightarrow> real" where
  "binary64 x =
     (if x = 0 then 0
      else let e = max \<lfloor>log 2 \<bar>x\<bar>\<rfloor> (- 1022); q = 2 powr real_of_int (e - 52)
           in q * of_int (round_half_even (x / q)))"

subsection \<open>Formatting a price key\<close>

text \<open>
  \<^verbatim>\<open>f"{p:.2f}"\<close>: a minus sign for a negative number, the integer part in decimal
  without leading zeros, a point and two decimals, rounded as \<open>round\<close> does.
\<close>

definition digit_char :: "nat \<Rightarrow> char" where
  "digit_char d = ''0123456789'' ! d"

fun digits :: "nat \<Rightarrow> string" where
  "digits n = (if n < 10 then [digit_char n] else digits (n div 10) @ [digit_char (n mod 10)])"

declare digits.simps [simp del]

definition format_2f :: "real \<Rightarrow> string" where
  "format_2f p =
     (let m = nat \<bar>round_half_even (p * 100)\<bar>
      in (if p < 0 then ''-'' else []) @ digits (m div 100) @ ''.''
           @ [digit_char (m mod 100 div 10), digit_char (m mod 10)])"

subsection \<open>The \<open>index\<close> view\<close>

text \<open>
  The model starts where the form fields have been converted: \<open>float(...)\<close>,
  \<open>int(...)\<close> and \<open>strptime\<close> have succeeded. A date is its proleptic Gregorian
  ordinal (\<open>date.toordinal()\<close>), so that \<open>today + timedelta(days=k)\<close> is \<open>today + k\<close>
  and \<open>(expiry_date - d).days\<close> is \<open>expiry_date - d\<close>. \<open>d.isoformat()\<close> is one-to-one
  on dates, and the model keys the grid and the date labels by the date itself.
\<close>

type_synonym date = int

record form =
  stock_price :: real
  strike_price :: real
  premium :: real
  contracts :: int
  option_type :: string
  expiry_date :: date
  implied_volatility :: real
  stock_min :: real
  stock_max :: real

record row =
  price :: real
  pl_total :: real
  pl_per_contract :: real

text \<open>What \<open>results.html\<close> receives besides the echoed form fields.\<close>

record results =
  rows :: "row list"
  price_points :: "real list"
  date_labels :: "date list"
  grid :: "date \<rightharpoonup> (string \<rightharpoonup> real)"

datatype message = MaxBelowMin | InvalidInput

text \<open>
  A response is the error page \<open>index.html\<close> with a message, the results page, or an
  exception that the view does not catch (it catches \<open>ValueError\<close> and \<open>TypeError\<close>).
\<close>

datatype response = ErrorPage message | ResultsPage results | Uncaught error

text \<open>The body of the loop that builds the expiry-only table.\<close>

definition expiry_row :: "string \<Rightarrow> real \<Rightarrow> real \<Rightarrow> int \<Rightarrow> real \<Rightarrow> row" where
  "expiry_row opt strike cost_per_contract n p =
     (let intrinsic = (if opt = ''call'' then max 0.0 (p - strike) else max 0.0 (strike - p));
          value_per_contract = intrinsic * 100;
          pl_per_contract' = value_per_contract - cost_per_contract;
          total_pl = pl_per_contract' * of_int n
      in \<lparr>price = p, pl_total = total_pl, pl_per_contract = pl_per_contract'\<rparr>)"

text \<open>
  The inner loop \<^verbatim>\<open>for p in price_points\<close> of the grid, for one date: an exception of
  \<open>black_scholes_price\<close> leaves the loop.
\<close>

fun daily_loop ::
  "string \<Rightarrow> real \<Rightarrow> real \<Rightarrow> int \<Rightarrow> real \<Rightarrow> real \<Rightarrow> real \<Rightarrow> real list
     \<Rightarrow> (string \<rightharpoonup> real) \<Rightarrow> error + (string \<rightharpoonup> real)" where
  "daily_loop opt strike cost_per_contract n T r sigma [] daily_map = Inr daily_map"
| "daily_loop opt strike cost_per_contract n T r sigma (p # ps) daily_map =
     (case black_scholes_price p strike T r sigma opt of
        Inl e \<Rightarrow> Inl e
      | Inr option_price \<Rightarrow>
          (let value_per_contract = option_price * 100;
               pl_per_contract' = value_per_contract - cost_per_contract;
               total_pl = pl_per_contract' * of_int n;
               price_key = format_2f p
           in daily_loop opt strike cost_per_contract n T r sigma ps
                (daily_map(price_key \<mapsto> total_pl))))"

text \<open>The outer loop \<^verbatim>\<open>for day_offset in range(total_days + 1)\<close>.\<close>

fun grid_loop ::
  "date \<Rightarrow> form \<Rightarrow> real \<Rightarrow> real \<Rightarrow> real \<Rightarrow> real list \<Rightarrow> nat list
     \<Rightarrow> date list \<times> (date \<rightharpoonup> (string \<rightharpoonup> real))
     \<Rightarrow> error + date list \<times> (date \<rightharpoonup> (string \<rightharpoonup> real))" where
  "grid_loop today f cost_per_contract r sigma pts [] (date_list, g) = Inr (date_list, g)"
| "grid_loop today f cost_per_contract r sigma pts (day_offset # offsets) (date_list, g) =
     (let d = today + int day_offset;
          days_to_expiry = max 0 (expiry_date f - d);
          T = real_of_int days_to_expiry / 365.0
      in case daily_loop (option_type f) (strike_price f) cost_per_contract (contracts f)
                T r sigma pts Map.empty of
           Inl e \<Rightarrow> Inl e
         | Inr daily_map \<Rightarrow>
             grid_loop today f cost_per_contract r sigma pts offsets
               (date_list @ [d], g(d \<mapsto> daily_map)))"

text \<open>
  The view on a POST request; \<open>today\<close> is \<open>date.today()\<close>. \<open>None\<close> is "does not
  return", which the loop of \<open>build_price_points\<close> could cause.
\<close>

definition index :: "date \<Rightarrow> form \<Rightarrow> response option" where
  "index today f =
     (if stock_max f < stock_min f then Some (ErrorPage MaxBelowMin)
      else
        let total_days = nat (max 0 (expiry_date f - today));
            step = 1.0
        in case build_price_points (stock_min f) (stock_max f) step of
             None \<Rightarrow> None
           | Some pts \<Rightarrow>
               (let cost_per_contract = premium f * 100;
                    table = map (expiry_row (option_type f) (strike_price f)
                                   cost_per_contract (contracts f)) pts;
                    r = 0.02;
                    sigma = implied_volatility f / 100.0
                in case grid_loop today f cost_per_contract r sigma pts
                          [0..<total_days + 1] ([], Map.empty) of
                     Inl ValueError \<Rightarrow> Some (ErrorPage InvalidInput)
                   | Inl ZeroDivisionError \<Rightarrow> Some (Uncaught ZeroDivisionError)
                   | Inr (date_list, g) \<Rightarrow>
                       Some (ResultsPage \<lparr>rows = table, price_points = pts,
                                           date_labels = date_list, grid = g\<rparr>)))"

section \<open>Auxiliary facts\<close>

subsection \<open>The error function\<close>

text \<open>
  The series converges absolutely, \<open>erf\<close> is odd, and for \<open>0 \<le> x \<le> 1\<close> its partial sums
  alternate around the limit.
\<close>

lemma erf_coeff_minus: "erf_coeff (- x) n = - erf_coeff x n"
  by (simp add: erf_coeff_def)

lemma summable_erf_coeff: "summable (\<lambda>n. (- 1) ^ n * erf_coeff x n)"
proof (rule summable_comparison_test')
  show "summable (\<lambda>n. \<bar>x\<bar> * ((x\<^sup>2) ^ n /\<^sub>R fact n))"
    by (intro summable_mult summable_exp_generic)
  show "norm ((- 1) ^ n * erf_coeff x n) \<le> \<bar>x\<bar> * ((x\<^sup>2) ^ n /\<^sub>R fact n)" if "n \<ge> 0" for n
  proof -
    have "norm ((- 1) ^ n * erf_coeff x n) = \<bar>x\<bar> * (x\<^sup>2) ^ n / (fact n * real (2 * n + 1))"
      by (simp add: erf_coeff_def abs_mult power_abs power_mult power_even_abs)
    also have "\<dots> \<le> \<bar>x\<bar> * (x\<^sup>2) ^ n / (fact n * 1)"
      by (intro divide_left_mono mult_left_mono mult_nonneg_nonneg) simp_all
    finally show ?thesis by (simp add: divide_inverse mult.commute mult.left_commute)
  qed
qed

lemma erf_minus: "erf (- x) = - erf x"
  unfolding erf_def erf_coeff_minus
  using suminf_minus [OF summable_erf_coeff, of x] by simp

lemma erf_0: "erf 0 = 0"
  by (simp add: erf_def erf_coeff_def)

lemma norm_cdf_minus: "norm_cdf (- x) = 1 - norm_cdf x"
  by (simp add: norm_cdf_def erf_minus add_divide_distrib)

lemma erf_coeff_nonneg: "0 \<le> x \<Longrightarrow> 0 \<le> erf_coeff x n"
  by (simp add: erf_coeff_def)

lemma erf_coeff_decreasing:
  assumes "0 \<le> x" and "x \<le> 1"
  shows "erf_coeff x (Suc n) \<le> erf_coeff x n"
proof -
  have "x ^ (2 * Suc n + 1) \<le> x ^ (2 * n + 1)"
    using assms by (intro power_decreasing) simp_all
  moreover have "fact n * real (2 * n + 1) \<le> fact (Suc n) * real (2 * Suc n + 1)"
    by (intro mult_mono) (simp_all add: fact_mono)
  moreover have "(0 :: real) < fact n * real (2 * n + 1)"
    by simp
  ultimately show ?thesis
    unfolding erf_coeff_def using assms by (intro frac_le) simp_all
qed

lemma erf_coeff_tendsto_0:
  assumes "0 \<le> x"
  shows "erf_coeff x \<longlonglongrightarrow> 0"
proof -
  have "(\<lambda>n. (- 1) ^ n * erf_coeff x n) \<longlonglongrightarrow> 0"
    by (rule summable_LIMSEQ_zero [OF summable_erf_coeff])
  then have "(\<lambda>n. \<bar>(- 1) ^ n * erf_coeff x n\<bar>) \<longlonglongrightarrow> 0"
    by (simp only: tendsto_rabs_zero_iff)
  moreover have "\<bar>(- 1) ^ n * erf_coeff x n\<bar> = erf_coeff x n" for n
    using erf_coeff_nonneg [OF assms, of n] by (simp add: abs_mult)
  ultimately show ?thesis by simp
qed

lemma erf_partial_sums:
  assumes "0 \<le> x" and "x \<le> 1"
  shows "2 / sqrt pi * (\<Sum>k<2 * n. (- 1) ^ k * erf_coeff x k) \<le> erf x"
    and "erf x \<le> 2 / sqrt pi * (\<Sum>k<2 * n + 1. (- 1) ^ k * erf_coeff x k)"
proof -
  note L = summable_Leibniz' [of "erf_coeff x", OF erf_coeff_tendsto_0 [OF assms(1)]
      erf_coeff_nonneg [OF assms(1)] erf_coeff_decreasing [OF assms]]
  have c: "0 \<le> 2 / sqrt pi" by simp
  show "2 / sqrt pi * (\<Sum>k<2 * n. (- 1) ^ k * erf_coeff x k) \<le> erf x"
    unfolding erf_def by (rule mult_left_mono [OF L(2) c])
  show "erf x \<le> 2 / sqrt pi * (\<Sum>k<2 * n + 1. (- 1) ^ k * erf_coeff x k)"
    unfolding erf_def by (rule mult_left_mono [OF L(4) c])
qed

subsection \<open>The pricer\<close>

lemma put_call_parity_general:
  fixes S K T r sigma :: real
  assumes "0 < S" and "0 < K" and "0 < T" and "0 < sigma"
  shows "\<exists>c p. black_scholes_price S K T r sigma ''call'' = Inr c
             \<and> black_scholes_price S K T r sigma ''put'' = Inr p
             \<and> p - c = K * exp (- r * T) - S"
proof -
  from assms have pos: "\<not> (T \<le> 0 \<or> sigma \<le> 0)" "K \<noteq> 0" "\<not> S / K \<le> 0"
    by (simp_all add: not_le)
  let ?c = "S * norm_cdf (d1 S K T r sigma) - K * exp (- r * T) * norm_cdf (d2 S K T r sigma)"
  let ?p = "K * exp (- r * T) * norm_cdf (- d2 S K T r sigma) - S * norm_cdf (- d1 S K T r sigma)"
  have "black_scholes_price S K T r sigma ''call'' = Inr ?c"
    using pos by (simp add: black_scholes_price_def)
  moreover have "black_scholes_price S K T r sigma ''put'' = Inr ?p"
    using pos by (simp add: black_scholes_price_def)
  moreover have "?p - ?c = K * exp (- r * T) - S"
    by (simp add: norm_cdf_minus algebra_simps)
  ultimately show ?thesis by blast
qed

lemma black_scholes_price_not_call:
  "opt \<noteq> ''call'' \<Longrightarrow>
   black_scholes_price S K T r sigma opt = black_scholes_price S K T r sigma ''put''"
  by (simp add: black_scholes_price_def)

subsection \<open>Rounding to two decimals\<close>

lemma round_half_even_add_even:
  assumes "even k"
  shows "round_half_even (y + of_int k) = round_half_even y + k"
  using assms by (simp add: round_half_even_def Let_def)

lemma round_half_even_of_int: "round_half_even (of_int n) = n"
  by (simp add: round_half_even_def)

lemma round_half_even_ge_floor: "\<lfloor>y\<rfloor> \<le> round_half_even y"
  by (simp add: round_half_even_def Let_def)

lemma round_half_even_mono_int: "of_int n \<le> y \<Longrightarrow> n \<le> round_half_even y"
  by (metis le_floor_iff order_trans round_half_even_ge_floor)

lemma round_half_even_error: "\<bar>of_int (round_half_even y) - y\<bar> \<le> 1 / 2"
proof -
  have "of_int \<lfloor>y\<rfloor> \<le> y" "y < of_int \<lfloor>y\<rfloor> + 1" by linarith+
  then show ?thesis
    by (simp add: round_half_even_def Let_def abs_le_iff)
qed

lemma round_py_add_1: "round_py (x + 1) 2 = round_py x 2 + 1"
proof -
  have "round_half_even (x * 100 + of_int 100) = round_half_even (x * 100) + 100"
    by (rule round_half_even_add_even) simp
  then show ?thesis by (simp add: round_py_def algebra_simps add_divide_distrib)
qed

lemma round_py_add_nat: "round_py (x + real i) 2 = round_py x 2 + real i"
proof (induction i)
  case 0 show ?case by simp
next
  case (Suc i)
  have "round_py (x + real (Suc i)) 2 = round_py ((x + real i) + 1) 2" by (simp add: algebra_simps)
  also have "\<dots> = round_py x 2 + real i + 1" by (simp only: round_py_add_1 Suc.IH)
  finally show ?case by simp
qed

lemma round_py_cents: "round_py x 2 = of_int (round_half_even (x * 100)) / 100"
  by (simp add: round_py_def)

lemma price_point_cents:
  "round_py (x + real i) 2 = of_int (round_half_even (x * 100) + 100 * int i) / 100"
proof -
  have "round_py (x + real i) 2 = round_py x 2 + real i"
    by (rule round_py_add_nat)
  also have "\<dots> = of_int (round_half_even (x * 100) + 100 * int i) / 100"
    by (simp add: round_py_cents add_divide_distrib)
  finally show ?thesis .
qed

subsection \<open>Rounding to binary64\<close>

text \<open>
  Powers of two and integers below \<open>2\<^sup>5\<^sup>3\<close> are representable, the rounding error of a
  positive \<open>x < 2\<^sup>n\<close> is at most \<open>2\<^sup>n\<^sup>-\<^sup>5\<^sup>4\<close>, and \<open>2\<^sup>5\<^sup>3 + 1\<close> rounds to \<open>2\<^sup>5\<^sup>3\<close>.
\<close>

lemma floor_log2_eq:
  fixes x :: real
  assumes "2 ^ n \<le> x" and "x < 2 ^ Suc n"
  shows "\<lfloor>log 2 x\<rfloor> = int n"
proof -
  have "0 < x" using assms(1) by (rule less_le_trans [rotated]) simp
  then show ?thesis
    using assms by (subst floor_log_eq_powr_iff) (simp_all add: powr_realpow powr_add)
qed

lemma binary64_absorb: "binary64 (2 ^ 53 + 1) = 2 ^ 53"
proof -
  have "\<lfloor>log 2 (2 ^ 53 + 1 :: real)\<rfloor> = int 53"
    by (rule floor_log2_eq) simp_all
  then show ?thesis
    by (simp add: binary64_def round_half_even_def powr_realpow)
qed

lemma binary64_nonneg:
  assumes "0 \<le> x" shows "0 \<le> binary64 x"
proof (cases "x = 0")
  case True then show ?thesis by (simp add: binary64_def)
next
  case False
  define q where "q = 2 powr real_of_int (max \<lfloor>log 2 \<bar>x\<bar>\<rfloor> (- 1022) - 52)"
  have q: "0 < q" by (simp add: q_def)
  with assms have "real_of_int 0 \<le> x / q" by simp
  then have "0 \<le> round_half_even (x / q)" by (rule round_half_even_mono_int)
  with q have "0 \<le> q * of_int (round_half_even (x / q))" by simp
  with False show ?thesis by (simp add: binary64_def Let_def q_def)
qed

lemma binary64_ge_power2:
  fixes x :: real
  assumes "2 ^ n \<le> x" shows "2 ^ n \<le> binary64 x"
proof -
  have x: "0 < x" using assms by (rule less_le_trans [rotated]) simp
  define e where "e = \<lfloor>log 2 x\<rfloor>"
  define q where "q = 2 powr real_of_int (e - 52)"
  have q: "0 < q" by (simp add: q_def)
  have ne: "int n \<le> e"
    using assms x by (simp add: e_def le_floor_iff le_log_iff powr_realpow)
  then have emax: "max \<lfloor>log 2 \<bar>x\<bar>\<rfloor> (- 1022) = e"
    using x by (simp add: e_def)
  have ex: "2 powr real_of_int e \<le> x"
    using x by (simp add: e_def powr_le_iff)
  have split: "2 powr real_of_int e = q * 2 ^ 52"
    by (simp add: q_def powr_diff powr_realpow [symmetric])
  have "real_of_int (2 ^ 52) \<le> x / q"
    using ex q by (simp add: split pos_le_divide_eq mult.commute)
  then have "2 ^ 52 \<le> round_half_even (x / q)"
    by (rule round_half_even_mono_int)
  then have "(2 ^ 52 :: real) \<le> of_int (round_half_even (x / q))"
    by (metis of_int_le_iff of_int_numeral of_int_power)
  with q have "q * 2 ^ 52 \<le> q * of_int (round_half_even (x / q))"
    by simp
  moreover have "(2 :: real) ^ n \<le> 2 powr real_of_int e"
    using ne by (simp add: powr_realpow [symmetric] del: powr_realpow)
  moreover have "binary64 x = q * of_int (round_half_even (x / q))"
    using x emax by (simp add: binary64_def Let_def q_def)
  ultimately show ?thesis by (simp add: split)
qed

lemma binary64_error:
  fixes x :: real
  assumes "0 < x" and "x < 2 ^ n"
  shows "\<bar>binary64 x - x\<bar> \<le> 2 ^ n / 2 ^ 54"
proof -
  define e where "e = max \<lfloor>log 2 \<bar>x\<bar>\<rfloor> (- 1022)"
  define q where "q = 2 powr real_of_int (e - 52)"
  have q: "0 < q" by (simp add: q_def)
  have "log 2 x < real n"
    using assms by (simp add: log_less_iff powr_realpow)
  then have "\<lfloor>log 2 x\<rfloor> < int n"
    by (simp add: floor_less_iff)
  then have "e \<le> int n - 1"
    using assms(1) by (simp add: e_def)
  then have "q \<le> 2 powr real_of_int (int n - 53)"
    by (simp add: q_def)
  also have "\<dots> = 2 ^ n / 2 ^ 53"
    by (simp add: powr_diff powr_realpow [symmetric] del: powr_realpow)
  finally have qle: "q \<le> 2 ^ n / 2 ^ 53" .
  have b: "binary64 x = q * of_int (round_half_even (x / q))"
    using assms(1) by (simp add: binary64_def Let_def q_def e_def)
  have "binary64 x - x = q * (of_int (round_half_even (x / q)) - x / q)"
    using q by (simp add: b right_diff_distrib)
  then have "\<bar>binary64 x - x\<bar> = \<bar>q\<bar> * \<bar>of_int (round_half_even (x / q)) - x / q\<bar>"
    by (simp only: abs_mult)
  also have "\<dots> = q * \<bar>of_int (round_half_even (x / q)) - x / q\<bar>"
    using q by simp
  also have "\<dots> \<le> q * (1 / 2)"
    using q round_half_even_error [of "x / q"] by (intro mult_left_mono) simp_all
  also have "\<dots> \<le> 2 ^ n / 2 ^ 53 * (1 / 2)"
    using qle by simp
  finally show ?thesis by simp
qed

lemma binary64_upper:
  fixes x :: real
  assumes "0 < x" and "x < 2 ^ n"
  shows "binary64 x \<le> x + 2 ^ n / 2 ^ 54"
  using binary64_error [OF assms] by linarith

lemma binary64_lower:
  fixes x :: real
  assumes "0 < x" and "x < 2 ^ n"
  shows "x - 2 ^ n / 2 ^ 54 \<le> binary64 x"
  using binary64_error [OF assms] by linarith

lemma binary64_of_nat:
  assumes "0 < n" and "n < 2 ^ 53"
  shows "binary64 (real n) = real n"
proof -
  define e where "e = \<lfloor>log 2 (real n)\<rfloor>"
  have n1: "1 \<le> real n" using assms(1) by simp
  have "0 \<le> log 2 (real n)" using n1 by simp
  then have e0: "0 \<le> e" by (simp add: e_def)
  have "log 2 (real n) < real 53"
    using assms(2) assms(1) by (rule log2_of_power_less)
  then have e52: "e \<le> 52" by (simp add: e_def floor_less_iff)
  define k where "k = nat (52 - e)"
  have q: "2 powr (real_of_int e - 52) = 1 / 2 ^ k"
  proof -
    have "real_of_int e - 52 = - real k" using e52 by (simp add: k_def)
    then show ?thesis by (simp add: powr_minus powr_realpow inverse_eq_divide)
  qed
  have "real n / (1 / 2 ^ k) = of_int (int (n * 2 ^ k))" by simp
  then have "round_half_even (real n / (1 / 2 ^ k)) = int (n * 2 ^ k)"
    by (simp only: round_half_even_of_int)
  then have r: "1 / 2 ^ k * of_int (round_half_even (real n / (1 / 2 ^ k))) = real n"
    by simp
  have "max \<lfloor>log 2 \<bar>real n\<bar>\<rfloor> (- 1022) = e"
    using e0 by (simp add: e_def)
  then have "binary64 (real n)
      = 2 powr (real_of_int e - 52) * of_int (round_half_even (real n / 2 powr (real_of_int e - 52)))"
    using assms(1) by (simp add: binary64_def Let_def)
  also have "\<dots> = real n"
    by (simp only: q r)
  finally show ?thesis .
qed

lemma binary64_numeral:
  assumes "numeral k < (2 :: nat) ^ 53"
  shows "binary64 (numeral k) = numeral k"
  using binary64_of_nat [of "numeral k"] assms by simp

lemma binary64_bound_20:
  "20 \<le> binary64 (20 + binary64 (1 / 10 ^ 9))" "binary64 (20 + binary64 (1 / 10 ^ 9)) < 21"
proof -
  have t0: "0 \<le> binary64 (1 / 10 ^ 9)" by (rule binary64_nonneg) simp
  have "binary64 (1 / 10 ^ 9) \<le> 1 / 10 ^ 9 + 2 ^ 0 / 2 ^ 54"
    by (rule binary64_upper) simp_all
  also have "\<dots> \<le> 1 / 2" by simp
  finally have t: "binary64 (1 / 10 ^ 9) \<le> 1 / 2" .
  have pos: "0 < 20 + binary64 (1 / 10 ^ 9)" "20 + binary64 (1 / 10 ^ 9) < 2 ^ 5"
    using t t0 by simp_all
  have "binary64 (20 + binary64 (1 / 10 ^ 9)) \<le> 20 + binary64 (1 / 10 ^ 9) + 2 ^ 5 / 2 ^ 54"
    by (rule binary64_upper [OF pos])
  also have "\<dots> < 21" using t by simp
  finally show "binary64 (20 + binary64 (1 / 10 ^ 9)) < 21" .
  have "1 / 10 ^ 9 - 2 ^ 0 / 2 ^ 54 \<le> binary64 (1 / 10 ^ 9)"
    by (rule binary64_lower) simp_all
  then have "20 \<le> 20 + binary64 (1 / 10 ^ 9) - 2 ^ 5 / 2 ^ 54"
    by simp
  also have "\<dots> \<le> binary64 (20 + binary64 (1 / 10 ^ 9))"
    by (rule binary64_lower [OF pos])
  finally show "20 \<le> binary64 (20 + binary64 (1 / 10 ^ 9))" .
qed

lemma binary64_bound_10:
  "10 \<le> binary64 (10 + binary64 (1 / 10 ^ 9))" "binary64 (10 + binary64 (1 / 10 ^ 9)) < 11"
proof -
  have t0: "0 \<le> binary64 (1 / 10 ^ 9)" by (rule binary64_nonneg) simp
  have "binary64 (1 / 10 ^ 9) \<le> 1 / 10 ^ 9 + 2 ^ 0 / 2 ^ 54"
    by (rule binary64_upper) simp_all
  also have "\<dots> \<le> 1 / 2" by simp
  finally have t: "binary64 (1 / 10 ^ 9) \<le> 1 / 2" .
  have pos: "0 < 10 + binary64 (1 / 10 ^ 9)" "10 + binary64 (1 / 10 ^ 9) < 2 ^ 4"
    using t t0 by simp_all
  have "binary64 (10 + binary64 (1 / 10 ^ 9)) \<le> 10 + binary64 (1 / 10 ^ 9) + 2 ^ 4 / 2 ^ 54"
    by (rule binary64_upper [OF pos])
  also have "\<dots> < 11" using t by simp
  finally show "binary64 (10 + binary64 (1 / 10 ^ 9)) < 11" .
  have "1 / 10 ^ 9 - 2 ^ 0 / 2 ^ 54 \<le> binary64 (1 / 10 ^ 9)"
    by (rule binary64_lower) simp_all
  then have "10 \<le> 10 + binary64 (1 / 10 ^ 9) - 2 ^ 4 / 2 ^ 54"
    by simp
  also have "\<dots> \<le> binary64 (10 + binary64 (1 / 10 ^ 9))"
    by (rule binary64_lower [OF pos])
  finally show "10 \<le> binary64 (10 + binary64 (1 / 10 ^ 9))" .
qed

subsection \<open>The loop of \<open>build_price_points\<close>\<close>

lemma price_loop_terminates:
  assumes d: "0 < \<delta>"
    and adv: "\<And>c. lo \<le> c \<Longrightarrow> c \<le> rnd (smax + rnd (1 / 10 ^ 9)) \<Longrightarrow> c + \<delta> \<le> rnd (c + step)"
  shows "lo \<le> current \<Longrightarrow> rnd (smax + rnd (1 / 10 ^ 9)) - current < real n * \<delta>
         \<Longrightarrow> \<exists>ps. price_loop rnd smax step current prices = Some ps"
proof (induction n arbitrary: current prices)
  case 0
  then have "\<not> current \<le> rnd (smax + rnd (1 / 10 ^ 9))" by simp
  then show ?case by (subst price_loop.simps) simp
next
  case (Suc n)
  show ?case
  proof (cases "current \<le> rnd (smax + rnd (1 / 10 ^ 9))")
    case False
    then show ?thesis by (subst price_loop.simps) simp
  next
    case True
    note step = adv [OF Suc.prems(1) True]
    with d Suc.prems(1) have lo: "lo \<le> rnd (current + step)" by simp
    from step Suc.prems(2)
    have "rnd (smax + rnd (1 / 10 ^ 9)) - rnd (current + step) < real n * \<delta>"
      by (simp add: algebra_simps)
    from Suc.IH [OF lo this, of "prices @ [rnd (round_py current 2)]"] True
    show ?thesis by (subst price_loop.simps) simp
  qed
qed

lemma ex_steps: 
  fixes a \<delta> :: real
  assumes "0 < \<delta>" shows "\<exists>n. a < real n * \<delta>"
proof -
  obtain n :: nat where "a / \<delta> < real n" using reals_Archimedean2 by blast
  with assms have "a < real n * \<delta>" by (simp add: pos_divide_less_eq)
  then show ?thesis ..
qed

lemma price_loop_exact:
  assumes s: "0 < step"
  shows "smax + 1 / 10 ^ 9 - current < real n * step
         \<Longrightarrow> \<exists>k. (k = 0 \<longleftrightarrow> \<not> current \<le> smax + 1 / 10 ^ 9) \<and> price_loop (\<lambda>x. x) smax step current prices
               = Some (prices @ map (\<lambda>i. round_py (current + real i * step) 2) [0..<k])"
proof (induction n arbitrary: current prices)
  case 0
  then have "\<not> current \<le> smax + 1 / 10 ^ 9" by simp
  then have "price_loop (\<lambda>x. x) smax step current prices = Some (prices @ map (\<lambda>i. round_py (current + real i * step) 2) [0..<0])"
    by (subst price_loop.simps) simp
  with \<open>\<not> current \<le> smax + 1 / 10 ^ 9\<close> show ?case by blast
next
  case (Suc n)
  show ?case
  proof (cases "current \<le> smax + 1 / 10 ^ 9")
    case False
    then have "price_loop (\<lambda>x. x) smax step current prices = Some (prices @ map (\<lambda>i. round_py (current + real i * step) 2) [0..<0])"
      by (subst price_loop.simps) simp
    with False show ?thesis by blast
  next
    case True
    from Suc.prems have "smax + 1 / 10 ^ 9 - (current + step) < real n * step"
      by (simp add: algebra_simps)
    from Suc.IH [OF this, of "prices @ [round_py current 2]"]
    obtain k where k: "price_loop (\<lambda>x. x) smax step (current + step) (prices @ [round_py current 2])
        = Some ((prices @ [round_py current 2]) @ map (\<lambda>i. round_py (current + step + real i * step) 2) [0..<k])"
      by blast
    have "map (\<lambda>i. round_py (current + real i * step) 2) [0..<Suc k]
          = round_py current 2 # map (\<lambda>i. round_py (current + step + real i * step) 2) [0..<k]"
      by (simp add: upt_conv_Cons map_Suc_upt [symmetric] algebra_simps del: upt_Suc)
    with k True have "price_loop (\<lambda>x. x) smax step current prices
        = Some (prices @ map (\<lambda>i. round_py (current + real i * step) 2) [0..<Suc k])"
      by (subst price_loop.simps) simp
    with True show ?thesis by blast
  qed
qed

lemma build_price_points_exact:
  assumes "0 < step"
  shows "\<exists>k. (k = 0 \<longleftrightarrow> \<not> smin \<le> smax + 1 / 10 ^ 9) \<and> build_price_points smin smax step
             = Some (map (\<lambda>i. round_py (smin + real i * step) 2) [0..<k])"
proof -
  obtain n where "smax + 1 / 10 ^ 9 - smin < real n * step"
    using ex_steps [OF assms] by blast
  from price_loop_exact [OF assms this, of "[]"] show ?thesis
    by (simp add: build_price_points_def build_price_points_fp_def)
qed

lemma price_loop_stuck:
  "price_loop binary64 (2 ^ 53) 1 (2 ^ 53) prices = None"
proof -
  have bound: "(2 ^ 53 :: real) \<le> binary64 (2 ^ 53 + binary64 (1 / 10 ^ 9))"
  proof (rule binary64_ge_power2)
    have "0 \<le> binary64 (1 / 10 ^ 9)" by (rule binary64_nonneg) simp
    then show "(2 ^ 53 :: real) \<le> 2 ^ 53 + binary64 (1 / 10 ^ 9)" by simp
  qed
  have absorb: "binary64 9007199254740993 = 9007199254740992"
    using binary64_absorb by simp
  define stuck :: "(real \<Rightarrow> real) \<Rightarrow> real \<Rightarrow> real \<Rightarrow> real \<Rightarrow> real list \<Rightarrow> real list \<Rightarrow> bool"
    where "stuck = (\<lambda>rnd smax step current ps y.
              \<not> (rnd = binary64 \<and> smax = 2 ^ 53 \<and> step = 1 \<and> current = 2 ^ 53))"
  have never: "stuck rnd smax step current ps y"
    if "price_loop rnd smax step current ps = Some y" for rnd smax step current ps y
  proof (rule price_loop.raw_induct [where P = stuck, OF _ that])
    fix f rnd smax step current ps y
    assume IH: "\<And>rnd smax step current ps y.
                  f rnd smax step current ps = Some y \<Longrightarrow> stuck rnd smax step current ps y"
      and eq: "(if current \<le> rnd (smax + rnd (1 / 10 ^ 9))
                then f rnd smax step (rnd (current + step)) (ps @ [rnd (round_py current 2)])
                else Some ps) = Some y"
    show "stuck rnd smax step current ps y"
      unfolding stuck_def
    proof
      assume a: "rnd = binary64 \<and> smax = 2 ^ 53 \<and> step = 1 \<and> current = 2 ^ 53"
      with eq bound absorb
      have "f binary64 (2 ^ 53) 1 (2 ^ 53) (ps @ [binary64 (round_py (2 ^ 53) 2)]) = Some y"
        by simp
      from IH [OF this] show False by (simp add: stuck_def)
    qed
  qed
  show ?thesis
  proof (cases "price_loop binary64 (2 ^ 53) 1 (2 ^ 53) prices")
    case None
    then show ?thesis .
  next
    case (Some y)
    from never [OF this] show ?thesis by (simp add: stuck_def)
  qed
qed

lemma build_price_points_10_20:
  "build_price_points 10 20 1 = Some [10, 11, 12, 13, 14, 15, 16, 17, 18, 19, 20]"
  by (simp add: build_price_points_def build_price_points_fp_def price_loop.simps
        round_py_def round_half_even_def)

lemma build_price_points_10_10: "build_price_points 10 10 1 = Some [10]"
  by (simp add: build_price_points_def build_price_points_fp_def price_loop.simps
        round_py_def round_half_even_def)

lemma build_price_points_99_101: "build_price_points 99 101 1 = Some [99, 100, 101]"
  by (simp add: build_price_points_def build_price_points_fp_def price_loop.simps
        round_py_def round_half_even_def)

lemma build_price_points_binary64_10_20:
  "build_price_points_fp binary64 10 20 1 = Some [10, 11, 12, 13, 14, 15, 16, 17, 18, 19, 20]"
proof -
  define B where "B = binary64 (20 + binary64 (1 / 10 ^ 9))"
  have B: "20 \<le> B" "B < 21"
    unfolding B_def by (rule binary64_bound_20)+
  have loop: "price_loop binary64 20 1 c ps
              = (if c \<le> B then price_loop binary64 20 1 (binary64 (c + 1))
                                 (ps @ [binary64 (round_py c 2)])
                 else Some ps)" for c ps
    unfolding B_def by (subst price_loop.simps) simp
  show ?thesis
    unfolding build_price_points_fp_def using B
    by (simp add: loop binary64_numeral round_py_def round_half_even_def)
qed

lemma build_price_points_binary64_10_10:
  "build_price_points_fp binary64 10 10 1 = Some [10]"
proof -
  define B where "B = binary64 (10 + binary64 (1 / 10 ^ 9))"
  have B: "10 \<le> B" "B < 11"
    unfolding B_def by (rule binary64_bound_10)+
  have loop: "price_loop binary64 10 1 c ps
              = (if c \<le> B then price_loop binary64 10 1 (binary64 (c + 1))
                                 (ps @ [binary64 (round_py c 2)])
                 else Some ps)" for c ps
    unfolding B_def by (subst price_loop.simps) simp
  show ?thesis
    unfolding build_price_points_fp_def using B
    by (simp add: loop binary64_numeral round_py_def round_half_even_def)
qed

lemma price_points_increasing:
  "sorted_wrt (<) (map (\<lambda>i. round_py (x + real i * 1) 2) [0..<k])"
proof -
  have "sorted_wrt (\<lambda>i j. round_py (x + real i * 1) 2 < round_py (x + real j * 1) 2) [0..<k]"
  proof (rule sorted_wrt_mono_rel [of _ "(<)"])
    show "sorted_wrt (<) [0..<k]" by simp
    show "round_py (x + real i * 1) 2 < round_py (x + real j * 1) 2" if "i < j" for i j
      using that by (simp add: round_py_add_nat)
  qed
  then show ?thesis by (simp only: sorted_wrt_map)
qed

lemma build_price_points_step_1:
  assumes "smin \<le> smax"
  shows "\<exists>ps. build_price_points smin smax 1 = Some ps \<and> ps \<noteq> [] \<and> sorted_wrt (<) ps
              \<and> (\<forall>p \<in> set ps. \<exists>c :: int. p = of_int c / 100)"
proof -
  from build_price_points_exact [OF zero_less_one, of smin smax] obtain k where
    kk: "(k = 0 \<longleftrightarrow> \<not> smin \<le> smax + 1 / 10 ^ 9)
       \<and> build_price_points smin smax 1 = Some (map (\<lambda>i. round_py (smin + real i * 1) 2) [0..<k])" ..
  from kk have k: "k = 0 \<longleftrightarrow> \<not> smin \<le> smax + 1 / 10 ^ 9" ..
  from kk have ps: "build_price_points smin smax 1 = Some (map (\<lambda>i. round_py (smin + real i * 1) 2) [0..<k])" ..
  from k assms have "k \<noteq> 0" by simp
  then have "map (\<lambda>i. round_py (smin + real i * 1) 2) [0..<k] \<noteq> []" by simp
  moreover have "\<exists>c :: int. p = of_int c / 100"
    if "p \<in> set (map (\<lambda>i. round_py (smin + real i * 1) 2) [0..<k])" for p
  proof -
    from that obtain i where "p = round_py (smin + real i * 1) 2"
      by (auto simp only: set_map)
    then have "p = of_int (round_half_even (smin * 100) + 100 * int i) / 100"
      by (simp only: mult_1_right price_point_cents)
    then show ?thesis ..
  qed
  ultimately show ?thesis
    using ps price_points_increasing [of smin k] by blast
qed

lemma build_price_points_binary64_returns:
  assumes "0 \<le> smin" and "smin \<le> smax" and "smax \<le> 2 ^ 52"
  shows "\<exists>ps. build_price_points_fp binary64 smin smax 1 = Some ps"
proof -
  define t where "t = binary64 (1 / 10 ^ 9)"
  define B where "B = binary64 (smax + t)"
  have "1 / 10 ^ 9 - 2 ^ 0 / 2 ^ 54 \<le> t"
    unfolding t_def by (rule binary64_lower) simp_all
  then have t0: "0 < t" by simp
  have "t \<le> 1 / 10 ^ 9 + 2 ^ 0 / 2 ^ 54"
    unfolding t_def by (rule binary64_upper) simp_all
  then have t1: "t \<le> 1 / 2" by simp
  have x: "0 < smax + t" "smax + t < 2 ^ 53"
    using assms t0 t1 by simp_all
  have "B \<le> smax + t + 2 ^ 53 / 2 ^ 54"
    unfolding B_def by (rule binary64_upper [OF x])
  with assms(3) t1 have B: "B \<le> 2 ^ 52 + 1" by simp
  have adv: "c + 1 / 2 \<le> binary64 (c + 1)" if "smin \<le> c" and "c \<le> B" for c
  proof -
    from that assms(1) B have c: "0 < c + 1" "c + 1 < 2 ^ 53" by simp_all
    have "c + 1 / 2 \<le> c + 1 - 2 ^ 53 / 2 ^ 54" by simp
    also have "\<dots> \<le> binary64 (c + 1)" by (rule binary64_lower [OF c])
    finally show ?thesis .
  qed
  obtain n where n: "B - smin < real n * (1 / 2)"
    using ex_steps [of "1 / 2" "B - smin"] by auto
  have "\<exists>ps. price_loop binary64 smax 1 smin [] = Some ps"
  proof (rule price_loop_terminates [of "1 / 2" smin binary64 smax 1 smin n])
    show "(0 :: real) < 1 / 2" by simp
    show "c + 1 / 2 \<le> binary64 (c + 1)"
      if "smin \<le> c" and "c \<le> binary64 (smax + binary64 (1 / 10 ^ 9))" for c
      using that adv [of c] by (simp only: B_def t_def)
    show "smin \<le> smin" by simp
    show "binary64 (smax + binary64 (1 / 10 ^ 9)) - smin < real n * (1 / 2)"
      using n by (simp only: B_def t_def)
  qed
  then show ?thesis by (simp only: build_price_points_fp_def)
qed

subsection \<open>Price keys\<close>

text \<open>
  Formatting is one-to-one on whole numbers of cents, hence on a price axis of step 1.
\<close>

lemma digit_char_inj: "a < 10 \<Longrightarrow> b < 10 \<Longrightarrow> digit_char a = digit_char b \<Longrightarrow> a = b"
proof -
  assume "a < 10" "b < 10" "digit_char a = digit_char b"
  have d: "distinct ''0123456789''" by simp
  from \<open>a < 10\<close> \<open>b < 10\<close> \<open>digit_char a = digit_char b\<close> show "a = b"
    unfolding digit_char_def
    by (subst (asm) nth_eq_iff_index_eq [OF d]) simp_all
qed

lemma digit_char_not_minus: "a < 10 \<Longrightarrow> digit_char a \<noteq> CHR ''-''"
proof -
  assume "a < 10"
  then have "digit_char a \<in> set ''0123456789''"
    unfolding digit_char_def by (intro nth_mem) simp
  then show ?thesis by auto
qed

lemma digits_nonempty: "digits n \<noteq> []"
  by (subst digits.simps) simp

lemma hd_digits_not_minus: "hd (digits n) \<noteq> CHR ''-''"
proof (induction n rule: digits.induct)
  case (1 n)
  show ?case
  proof (cases "n < 10")
    case True
    then show ?thesis by (subst digits.simps) (simp add: digit_char_not_minus)
  next
    case False
    with 1 digits_nonempty [of "n div 10"] show ?thesis
      by (subst digits.simps) simp
  qed
qed

lemma digits_small: "n < 10 \<Longrightarrow> digits n = [digit_char n]"
  by (subst digits.simps) simp

lemma digits_large: "\<not> n < 10 \<Longrightarrow> digits n = digits (n div 10) @ [digit_char (n mod 10)]"
  by (subst digits.simps) simp

lemma digits_inj: "digits n = digits m \<Longrightarrow> n = m"
proof (induction n arbitrary: m rule: digits.induct)
  case (1 n)
  show ?case
  proof (cases "n < 10")
    case n: True
    show ?thesis
    proof (cases "m < 10")
      case True
      with n 1(2) show ?thesis
        by (simp add: digits_small digit_char_inj)
    next
      case False
      with n 1(2) digits_nonempty [of "m div 10"] show ?thesis
        by (simp add: digits_small digits_large)
    qed
  next
    case n: False
    show ?thesis
    proof (cases "m < 10")
      case True
      with n 1(2) digits_nonempty [of "n div 10"] show ?thesis
        by (simp add: digits_small digits_large)
    next
      case False
      with n 1(2) have "digits (n div 10) = digits (m div 10)"
        and "digit_char (n mod 10) = digit_char (m mod 10)"
        by (simp_all add: digits_large)
      then have "n div 10 = m div 10" and "n mod 10 = m mod 10"
        using 1(1) [OF n] by (simp_all add: digit_char_inj)
      then have "n div 10 * 10 + n mod 10 = m div 10 * 10 + m mod 10"
        by (simp only:)
      then show ?thesis
        by (simp only: div_mult_mod_eq)
    qed
  qed
qed

lemma format_2f_cents:
  "format_2f (of_int n / 100) =
     (if n < 0 then ''-'' else []) @ digits (nat \<bar>n\<bar> div 100) @ ''.''
       @ [digit_char (nat \<bar>n\<bar> mod 100 div 10), digit_char (nat \<bar>n\<bar> mod 10)]"
  by (simp add: format_2f_def round_half_even_of_int Let_def divide_less_0_iff)

lemma format_2f_inj:
  assumes "format_2f (of_int n / 100) = format_2f (of_int m / 100)"
  shows "n = m"
proof -
  define a where "a = nat \<bar>n\<bar>"
  define b where "b = nat \<bar>m\<bar>"
  let ?tail = "\<lambda>k. ''.'' @ [digit_char (k mod 100 div 10), digit_char (k mod 10)]"
  have eq: "(if n < 0 then ''-'' else []) @ digits (a div 100) @ ?tail a
          = (if m < 0 then ''-'' else []) @ digits (b div 100) @ ?tail b"
    using assms by (simp add: format_2f_cents a_def b_def)
  have sign: "n < 0 \<longleftrightarrow> m < 0"
  proof (rule ccontr)
    assume "\<not> ?thesis"
    then consider "n < 0" "\<not> m < 0" | "\<not> n < 0" "m < 0" by blast
    then show False
    proof cases
      case 1
      with eq have "CHR ''-'' # digits (a div 100) @ ?tail a = digits (b div 100) @ ?tail b" by simp
      from arg_cong [OF this, of hd] show False
        using hd_digits_not_minus [of "b div 100"] digits_nonempty [of "b div 100"] by simp
    next
      case 2
      with eq have "digits (a div 100) @ ?tail a = CHR ''-'' # digits (b div 100) @ ?tail b" by simp
      from arg_cong [OF this, of hd] show False
        using hd_digits_not_minus [of "a div 100"] digits_nonempty [of "a div 100"] by simp
    qed
  qed
  with eq have "digits (a div 100) @ ?tail a = digits (b div 100) @ ?tail b"
    by (simp split: if_splits)
  then have "digits (a div 100) = digits (b div 100) \<and> ?tail a = ?tail b"
    by (intro iffD1 [OF append_eq_append_conv]) simp_all
  then have parts: "digits (a div 100) = digits (b div 100)"
    "digit_char (a mod 100 div 10) = digit_char (b mod 100 div 10)"
    "digit_char (a mod 10) = digit_char (b mod 10)"
    by simp_all
  have "a div 100 = b div 100"
    using parts(1) by (rule digits_inj)
  moreover have "a mod 100 div 10 = b mod 100 div 10"
    using parts(2) by (intro digit_char_inj) simp_all
  moreover have "a mod 10 = b mod 10"
    using parts(3) by (intro digit_char_inj) simp_all
  moreover have low: "k mod 100 = 10 * (k mod 100 div 10) + k mod 10" for k :: nat
    using div_mult_mod_eq [of "k mod 100" 10] by (simp add: mod_mod_cancel)
  ultimately have "a div 100 = b div 100" and "a mod 100 = b mod 100"
    using low [of a] low [of b] by simp_all
  then have "a div 100 * 100 + a mod 100 = b div 100 * 100 + b mod 100"
    by (simp only:)
  then have "a = b"
    by (simp only: div_mult_mod_eq)
  then have "\<bar>n\<bar> = \<bar>m\<bar>"
    by (simp add: a_def b_def)
  with sign show ?thesis by linarith
qed

lemma price_points_inj:
  "inj_on format_2f (set (map (\<lambda>i. round_py (x + real i * 1) 2) [0..<k]))"
proof (rule inj_onI)
  fix a b
  assume "a \<in> set (map (\<lambda>i. round_py (x + real i * 1) 2) [0..<k])"
    and "b \<in> set (map (\<lambda>i. round_py (x + real i * 1) 2) [0..<k])"
    and eq: "format_2f a = format_2f b"
  then obtain i j where a: "a = of_int (round_half_even (x * 100) + 100 * int i) / 100"
    and b: "b = of_int (round_half_even (x * 100) + 100 * int j) / 100"
    by (auto simp: price_point_cents)
  from eq have "round_half_even (x * 100) + 100 * int i = round_half_even (x * 100) + 100 * int j"
    unfolding a b by (rule format_2f_inj)
  then show "a = b" by (simp add: a b)
qed

lemma format_2f_examples:
  "format_2f 99 = ''99.00''" "format_2f 100 = ''100.00''" "format_2f 101 = ''101.00''"
  by (simp_all add: format_2f_def round_half_even_def digits.simps digit_char_def)

subsection \<open>The loops of \<open>index\<close>\<close>

lemma daily_loop_other:
  "daily_loop opt strike cost n T r sigma ps m = Inr m' \<Longrightarrow> k \<notin> format_2f ` set ps
   \<Longrightarrow> m' k = m k"
  by (induction ps arbitrary: m) (auto simp: Let_def split: sum.splits)

lemma daily_loop_cell:
  assumes "daily_loop opt strike cost n T r sigma ps m = Inr m'"
    and "p \<in> set ps"
    and "inj_on format_2f (set ps)"
  shows "\<exists>v. black_scholes_price p strike T r sigma opt = Inr v
             \<and> m' (format_2f p) = Some ((v * 100 - cost) * of_int n)"
  using assms
proof (induction ps arbitrary: m)
  case Nil
  then show ?case by simp
next
  case (Cons q ps)
  from Cons.prems(1) obtain v where v: "black_scholes_price q strike T r sigma opt = Inr v"
    and rest: "daily_loop opt strike cost n T r sigma ps
                 (m(format_2f q \<mapsto> (v * 100 - cost) * of_int n)) = Inr m'"
    by (auto simp: Let_def split: sum.splits)
  from Cons.prems(3) have inj: "inj_on format_2f (set ps)"
    by (simp add: inj_on_def)
  show ?case
  proof (cases "p \<in> set ps")
    case True
    from Cons.IH [OF rest True inj] show ?thesis .
  next
    case False
    with Cons.prems(2) have pq: "p = q" by simp
    have "format_2f q \<notin> format_2f ` set ps"
    proof
      assume "format_2f q \<in> format_2f ` set ps"
      then obtain x where "x \<in> set ps" "format_2f q = format_2f x" by blast
      with Cons.prems(3) have "q = x" by (simp add: inj_on_def)
      with \<open>x \<in> set ps\<close> False pq show False by simp
    qed
    from daily_loop_other [OF rest this] v pq show ?thesis by simp
  qed
qed

lemma grid_loop_other:
  "grid_loop today f cost r sigma pts offs (dl, g) = Inr (dl', g') \<Longrightarrow> d \<notin> (\<lambda>k. today + int k) ` set offs
   \<Longrightarrow> g' d = g d"
  by (induction offs arbitrary: dl g) (auto simp: Let_def split: sum.splits)

lemma grid_loop_dates:
  "grid_loop today f cost r sigma pts offs (dl, g) = Inr (dl', g')
   \<Longrightarrow> dl' = dl @ map (\<lambda>k. today + int k) offs"
proof (induction offs arbitrary: dl g)
  case Nil
  then show ?case by simp
next
  case (Cons j offs)
  from Cons.prems obtain m where
    "grid_loop today f cost r sigma pts offs (dl @ [today + int j], g(today + int j \<mapsto> m)) = Inr (dl', g')"
    by (auto simp: Let_def split: sum.splits)
  from Cons.IH [OF this] show ?case by simp
qed

lemma grid_loop_day:
  assumes "grid_loop today f cost r sigma pts offs (dl, g) = Inr (dl', g')"
    and "k \<in> set offs"
  shows "\<exists>m. daily_loop (option_type f) (strike_price f) cost (contracts f)
               (real_of_int (max 0 (expiry_date f - (today + int k))) / 365) r sigma pts Map.empty = Inr m
             \<and> g' (today + int k) = Some m"
  using assms
proof (induction offs arbitrary: dl g)
  case Nil
  then show ?case by simp
next
  case (Cons j offs)
  from Cons.prems(1) obtain m where m: "daily_loop (option_type f) (strike_price f) cost (contracts f)
               (real_of_int (max 0 (expiry_date f - (today + int j))) / 365) r sigma pts Map.empty = Inr m"
    and rest: "grid_loop today f cost r sigma pts offs (dl @ [today + int j], g(today + int j \<mapsto> m)) = Inr (dl', g')"
    by (auto simp: Let_def split: sum.splits)
  show ?case
  proof (cases "k \<in> set offs")
    case True
    from Cons.IH [OF rest True] show ?thesis .
  next
    case False
    with Cons.prems(2) have kj: "k = j" by simp
    from False have "today + int k \<notin> (\<lambda>k. today + int k) ` set offs" by auto
    from grid_loop_other [OF rest this [unfolded kj]] m kj show ?thesis by simp
  qed
qed

lemma index_results:
  assumes "index today f = Some (ResultsPage res)"
  shows "\<exists>k. price_points res = map (\<lambda>i. round_py (stock_min f + real i * 1) 2) [0..<k]"
    and "rows res = map (expiry_row (option_type f) (strike_price f) (premium f * 100) (contracts f))
                      (price_points res)"
    and "grid_loop today f (premium f * 100) 0.02 (implied_volatility f / 100) (price_points res)
           [0..<nat (max 0 (expiry_date f - today)) + 1] ([], Map.empty)
         = Inr (date_labels res, grid res)"
proof -
  obtain k where k: "build_price_points (stock_min f) (stock_max f) 1
                     = Some (map (\<lambda>i. round_py (stock_min f + real i * 1) 2) [0..<k])"
    using build_price_points_exact [of 1 "stock_min f" "stock_max f"] by auto
  from assms k have "price_points res = map (\<lambda>i. round_py (stock_min f + real i * 1) 2) [0..<k]"
    by (auto simp: index_def Let_def split: if_splits sum.splits error.splits prod.splits)
  then show "\<exists>k. price_points res = map (\<lambda>i. round_py (stock_min f + real i * 1) 2) [0..<k]" ..
  from assms k show "rows res = map (expiry_row (option_type f) (strike_price f) (premium f * 100) (contracts f))
                      (price_points res)"
    by (auto simp: index_def Let_def split: if_splits sum.splits error.splits prod.splits)
  from assms k show "grid_loop today f (premium f * 100) 0.02 (implied_volatility f / 100) (price_points res)
           [0..<nat (max 0 (expiry_date f - today)) + 1] ([], Map.empty)
         = Inr (date_labels res, grid res)"
    by (auto simp: index_def Let_def split: if_splits sum.splits error.splits prod.splits)
qed

lemma index_date_labels:
  assumes "index today f = Some (ResultsPage res)"
  shows "date_labels res = map (\<lambda>k. today + int k) [0..<nat (max 0 (expiry_date f - today)) + 1]"
  using grid_loop_dates [OF index_results(3) [OF assms]] by (simp only: append_Nil)

lemma index_keys_inj:
  assumes "index today f = Some (ResultsPage res)"
  shows "inj_on format_2f (set (price_points res))"
proof -
  from index_results(1) [OF assms] obtain k where
    "price_points res = map (\<lambda>i. round_py (stock_min f + real i * 1) 2) [0..<k]" ..
  then show ?thesis by (simp only: price_points_inj)
qed

lemma index_grid_day:
  assumes "index today f = Some (ResultsPage res)"
    and "d \<in> set (date_labels res)"
  shows "\<exists>m. daily_loop (option_type f) (strike_price f) (premium f * 100) (contracts f)
               (real_of_int (max 0 (expiry_date f - d)) / 365) 0.02 (implied_volatility f / 100)
               (price_points res) Map.empty = Inr m
           \<and> grid res d = Some m"
proof -
  let ?n = "nat (max 0 (expiry_date f - today)) + 1"
  from assms(2) have "d \<in> (\<lambda>k. today + int k) ` set [0..<?n]"
    by (simp only: index_date_labels [OF assms(1)] set_map)
  then obtain j where j: "j \<in> set [0..<?n]" and d: "d = today + int j"
    by blast
  from grid_loop_day [OF index_results(3) [OF assms(1)] j] show ?thesis
    unfolding d by blast
qed

lemma index_grid_cell:
  assumes "index today f = Some (ResultsPage res)"
    and "d \<in> set (date_labels res)"
    and "p \<in> set (price_points res)"
  shows "\<exists>v m. black_scholes_price p (strike_price f)
                  (real_of_int (max 0 (expiry_date f - d)) / 365) 0.02
                  (implied_volatility f / 100) (option_type f) = Inr v
               \<and> grid res d = Some m
               \<and> m (format_2f p) = Some ((v * 100 - premium f * 100) * of_int (contracts f))"
proof -
  from index_grid_day [OF assms(1,2)] obtain m where
    m: "daily_loop (option_type f) (strike_price f) (premium f * 100) (contracts f)
          (real_of_int (max 0 (expiry_date f - d)) / 365) 0.02 (implied_volatility f / 100)
          (price_points res) Map.empty = Inr m"
    and g: "grid res d = Some m"
    by blast
  from daily_loop_cell [OF m assms(3) index_keys_inj [OF assms(1)]] g show ?thesis by blast
qed

lemma index_expiry_in_labels:
  assumes "index today f = Some (ResultsPage res)"
    and "today \<le> expiry_date f"
  shows "expiry_date f \<in> set (date_labels res)"
proof -
  let ?n = "nat (max 0 (expiry_date f - today))"
  have "today + int ?n \<in> (\<lambda>k. today + int k) ` set [0..<?n + 1]"
    by (intro imageI) simp
  moreover have "today + int ?n = expiry_date f"
    using assms(2) by simp
  ultimately show ?thesis
    by (simp only: index_date_labels [OF assms(1)] set_map)
qed

lemma index_expiry_column:
  assumes "index today f = Some (ResultsPage res)"
    and "today \<le> expiry_date f"
  shows "\<exists>m. grid res (expiry_date f) = Some m
            \<and> (\<forall>p \<in> set (price_points res).
                  m (format_2f p)
                  = Some (((if option_type f = ''call'' then max 0 (p - strike_price f)
                            else max 0 (strike_price f - p)) * 100
                           - premium f * 100) * of_int (contracts f)))"
proof -
  from index_grid_day [OF assms(1) index_expiry_in_labels [OF assms]] obtain m where
    m: "daily_loop (option_type f) (strike_price f) (premium f * 100) (contracts f)
          (real_of_int (max 0 (expiry_date f - expiry_date f)) / 365) 0.02
          (implied_volatility f / 100) (price_points res) Map.empty = Inr m"
    and g: "grid res (expiry_date f) = Some m"
    by blast
  have "m (format_2f p)
          = Some (((if option_type f = ''call'' then max 0 (p - strike_price f)
                    else max 0 (strike_price f - p)) * 100
                   - premium f * 100) * of_int (contracts f))"
    if "p \<in> set (price_points res)" for p
    using daily_loop_cell [OF m that index_keys_inj [OF assms(1)]]
    by (auto simp: black_scholes_price_def)
  with g show ?thesis by blast
qed

lemma index_date_axis:
  assumes "index today f = Some (ResultsPage res)"
  shows "length (date_labels res) = nat (max 0 (expiry_date f - today)) + 1"
    and "hd (date_labels res) = today"
    and "today \<le> expiry_date f \<Longrightarrow> last (date_labels res) = expiry_date f"
    and "expiry_date f < today \<Longrightarrow> date_labels res = [today]"
proof -
  let ?n = "nat (max 0 (expiry_date f - today))"
  note dl = index_date_labels [OF assms]
  show "length (date_labels res) = ?n + 1"
    by (simp only: dl length_map length_upt diff_zero)
  have "date_labels res = today # map (\<lambda>k. today + int k) [1..<?n + 1]"
    by (simp only: dl) (simp add: upt_rec [of 0])
  then show "hd (date_labels res) = today" by simp
  have "date_labels res = map (\<lambda>k. today + int k) [0..<?n] @ [today + int ?n]"
    by (simp only: dl) simp
  then have "last (date_labels res) = today + int ?n" by simp
  then show "last (date_labels res) = expiry_date f" if "today \<le> expiry_date f"
    using that by simp
  show "date_labels res = [today]" if "expiry_date f < today"
    using that by (simp only: dl) simp
qed

lemma expiry_row_not_call:
  "opt \<noteq> ''call'' \<Longrightarrow> expiry_row opt strike cost n = expiry_row ''put'' strike cost n"
  by (rule ext) (simp add: expiry_row_def)

lemma daily_loop_not_call:
  assumes "opt \<noteq> ''call''"
  shows "daily_loop opt strike cost n T r sigma ps m = daily_loop ''put'' strike cost n T r sigma ps m"
  by (induction ps arbitrary: m)
     (simp_all add: black_scholes_price_not_call [OF assms] Let_def split: sum.splits)

lemma grid_loop_not_call:
  assumes "opt \<noteq> ''call''"
  shows "grid_loop today (f\<lparr>option_type := opt\<rparr>) cost r sigma pts offs (dl, g)
         = grid_loop today (f\<lparr>option_type := ''put''\<rparr>) cost r sigma pts offs (dl, g)"
proof (induction offs arbitrary: dl g)
  case Nil
  show ?case by simp
next
  case (Cons j offs)
  show ?case
  proof (cases "daily_loop ''put'' (strike_price f) cost (contracts f)
                  (real_of_int (max 0 (expiry_date f - (today + int j))) / 365) r sigma pts Map.empty")
    case (Inl e)
    then show ?thesis by (simp add: Let_def daily_loop_not_call [OF assms])
  next
    case (Inr m)
    then show ?thesis
      using Cons.IH [of "dl @ [today + int j]" "g(today + int j \<mapsto> m)"]
      by (simp add: Let_def daily_loop_not_call [OF assms] del: fun_upd_apply)
  qed
qed

lemma index_not_call:
  assumes "opt \<noteq> ''call''"
  shows "index today (f\<lparr>option_type := opt\<rparr>) = index today (f\<lparr>option_type := ''put''\<rparr>)"
proof (cases "build_price_points (stock_min f) (stock_max f) 1")
  case None
  then show ?thesis by (simp add: index_def)
next
  case (Some pts)
  then show ?thesis
    by (simp add: index_def Let_def expiry_row_not_call [OF assms] grid_loop_not_call [OF assms])
qed

lemma index_example:
  "\<exists>g. index 739000 \<lparr>stock_price = 100, strike_price = 100, premium = 5, contracts = 1,
      option_type = ''call'', expiry_date = 739001, implied_volatility = 20,
      stock_min = 99, stock_max = 101\<rparr>
   = Some (ResultsPage \<lparr>rows = [\<lparr>price = 99, pl_total = - 500, pl_per_contract = - 500\<rparr>,
                                 \<lparr>price = 100, pl_total = - 500, pl_per_contract = - 500\<rparr>,
                                 \<lparr>price = 101, pl_total = - 400, pl_per_contract = - 400\<rparr>],
                         price_points = [99, 100, 101], date_labels = [739000, 739001], grid = g\<rparr>)"
  by (simp add: index_def build_price_points_99_101 Let_def expiry_row_def
        black_scholes_price_def upt_rec)

lemma index_example_past:
  "\<exists>g. index 739000 \<lparr>stock_price = 100, strike_price = 100, premium = 5, contracts = 1,
      option_type = ''put'', expiry_date = 738990, implied_volatility = 20,
      stock_min = 99, stock_max = 101\<rparr>
   = Some (ResultsPage \<lparr>rows = [\<lparr>price = 99, pl_total = - 400, pl_per_contract = - 400\<rparr>,
                                 \<lparr>price = 100, pl_total = - 500, pl_per_contract = - 500\<rparr>,
                                 \<lparr>price = 101, pl_total = - 500, pl_per_contract = - 500\<rparr>],
                         price_points = [99, 100, 101], date_labels = [739000], grid = g\<rparr>)"
  by (simp add: index_def build_price_points_99_101 Let_def expiry_row_def
        black_scholes_price_def)

lemma black_scholes_price_returns:
  assumes "0 < K" and "0 < p"
  shows "\<exists>v. black_scholes_price p K T r sigma opt = Inr v"
proof -
  from assms have "K \<noteq> 0" "\<not> p / K \<le> 0" by (simp_all add: not_le)
  then show ?thesis by (simp add: black_scholes_price_def)
qed

lemma daily_loop_returns:
  assumes "0 < strike" and "\<forall>p \<in> set ps. 0 < p"
  shows "\<exists>m'. daily_loop opt strike cost n T r sigma ps m = Inr m'"
  using assms(2)
proof (induction ps arbitrary: m)
  case Nil
  show ?case by simp
next
  case (Cons q ps)
  from Cons.prems have q: "0 < q" and rest: "\<forall>p \<in> set ps. 0 < p" by simp_all
  from black_scholes_price_returns [OF assms(1) q] obtain v where
    v: "black_scholes_price q strike T r sigma opt = Inr v" by blast
  from Cons.IH [OF rest] show ?case by (simp add: v Let_def)
qed

lemma grid_loop_returns:
  assumes "0 < strike_price f" and "\<forall>p \<in> set pts. 0 < p"
  shows "\<exists>dl' g'. grid_loop today f cost r sigma pts offs (dl, g) = Inr (dl', g')"
proof (induction offs arbitrary: dl g)
  case Nil
  show ?case by simp
next
  case (Cons j offs)
  from daily_loop_returns [OF assms] obtain m where
    m: "daily_loop (option_type f) (strike_price f) cost (contracts f)
          (real_of_int (max 0 (expiry_date f - (today + int j))) / 365) r sigma pts Map.empty = Inr m"
    by blast
  from Cons.IH [of "dl @ [today + int j]" "g(today + int j \<mapsto> m)"] show ?case
    by (simp add: m Let_def del: fun_upd_apply)
qed

lemma round_py_positive:
  assumes "1 / 100 \<le> x"
  shows "0 < round_py x 2"
proof -
  from assms have "real_of_int 1 \<le> x * 100" by simp
  then have "1 \<le> round_half_even (x * 100)" by (rule round_half_even_mono_int)
  then show ?thesis by (simp add: round_py_cents)
qed

lemma price_points_positive:
  assumes "1 / 100 \<le> x"
  shows "\<forall>p \<in> set (map (\<lambda>i. round_py (x + real i * 1) 2) [0..<k]). 0 < p"
proof
  fix p assume "p \<in> set (map (\<lambda>i. round_py (x + real i * 1) 2) [0..<k])"
  then obtain i where "p = round_py (x + real i * 1) 2" by (auto simp only: set_map)
  then have "p = round_py x 2 + real i" by (simp only: mult_1_right round_py_add_nat)
  with round_py_positive [OF assms] show "0 < p" by simp
qed

lemma index_returns:
  assumes "\<not> stock_max f < stock_min f" and "0 < strike_price f" and "1 / 100 \<le> stock_min f"
  shows "\<exists>res. index today f = Some (ResultsPage res) \<and> price_points res \<noteq> []"
proof -
  from build_price_points_exact [OF zero_less_one, of "stock_min f" "stock_max f"] obtain k where
    kk: "(k = 0 \<longleftrightarrow> \<not> stock_min f \<le> stock_max f + 1 / 10 ^ 9)
       \<and> build_price_points (stock_min f) (stock_max f) 1
           = Some (map (\<lambda>i. round_py (stock_min f + real i * 1) 2) [0..<k])" ..
  define pts where "pts = map (\<lambda>i. round_py (stock_min f + real i * 1) 2) [0..<k]"
  from kk have bpp: "build_price_points (stock_min f) (stock_max f) 1 = Some pts"
    by (simp only: pts_def)
  from kk assms(1) have "k \<noteq> 0" by simp
  then have ne: "pts \<noteq> []" by (simp add: pts_def)
  have pos: "\<forall>p \<in> set pts. 0 < p"
    unfolding pts_def by (rule price_points_positive [OF assms(3)])
  from grid_loop_returns [OF assms(2) pos] obtain dl g where
    "grid_loop today f (premium f * 100) 0.02 (implied_volatility f / 100) pts
       [0..<nat (max 0 (expiry_date f - today)) + 1] ([], Map.empty) = Inr (dl, g)"
    by blast
  with assms(1) bpp ne show ?thesis
    by (simp add: index_def Let_def)
qed

lemma index_today_in_labels:
  assumes "index today f = Some (ResultsPage res)"
  shows "today \<in> set (date_labels res)"
proof -
  let ?n = "nat (max 0 (expiry_date f - today))"
  have "(0 :: nat) \<in> set [0..<?n + 1]"
    by (simp only: set_upt atLeastLessThan_iff) simp
  then have "today + int 0 \<in> (\<lambda>k. today + int k) ` set [0..<?n + 1]"
    by (rule imageI)
  then have "today + int 0 \<in> set (date_labels res)"
    by (simp only: index_date_labels [OF assms] set_map)
  then show ?thesis by simp
qed

lemma index_not_call_page:
  assumes "opt \<noteq> ''call''"
    and "\<not> stock_max f < stock_min f" and "0 < strike_price f" and "1 / 100 \<le> stock_min f"
  shows "\<exists>res. index today (f\<lparr>option_type := opt\<rparr>) = Some (ResultsPage res)
           \<and> price_points res \<noteq> [] \<and> today \<in> set (date_labels res)
           \<and> length (rows res) = length (price_points res)
           \<and> (\<forall>i < length (price_points res).
                 price (rows res ! i) = price_points res ! i
               \<and> pl_total (rows res ! i)
                   = (max 0 (strike_price f - price_points res ! i) * 100 - premium f * 100)
                     * of_int (contracts f))
           \<and> (\<forall>d \<in> set (date_labels res). \<forall>p \<in> set (price_points res).
                 \<exists>v m. black_scholes_price p (strike_price f)
                          (real_of_int (max 0 (expiry_date f - d)) / 365) 0.02
                          (implied_volatility f / 100) ''put'' = Inr v
                      \<and> grid res d = Some m
                      \<and> m (format_2f p) = Some ((v * 100 - premium f * 100) * of_int (contracts f)))"
proof -
  let ?f = "f\<lparr>option_type := opt\<rparr>"
  have "\<exists>res. index today ?f = Some (ResultsPage res) \<and> price_points res \<noteq> []"
    using assms(2-4) by (intro index_returns) simp_all
  then obtain res where idx: "index today ?f = Some (ResultsPage res)"
    and ne: "price_points res \<noteq> []" by blast
  note r = index_results [OF idx]
  have rws: "rows res = map (expiry_row ''put'' (strike_price f) (premium f * 100) (contracts f))
                          (price_points res)"
    using r(2) by (simp add: expiry_row_not_call [OF assms(1)])
  have len: "length (rows res) = length (price_points res)"
    by (simp add: rws)
  have row: "price (rows res ! i) = price_points res ! i
           \<and> pl_total (rows res ! i)
               = (max 0 (strike_price f - price_points res ! i) * 100 - premium f * 100)
                 * of_int (contracts f)"
    if "i < length (price_points res)" for i
    using that by (simp add: rws expiry_row_def Let_def)
  have cell: "\<exists>v m. black_scholes_price p (strike_price f)
                          (real_of_int (max 0 (expiry_date f - d)) / 365) 0.02
                          (implied_volatility f / 100) ''put'' = Inr v
                      \<and> grid res d = Some m
                      \<and> m (format_2f p) = Some ((v * 100 - premium f * 100) * of_int (contracts f))"
    if "d \<in> set (date_labels res)" and "p \<in> set (price_points res)" for d p
    using index_grid_cell [OF idx that]
    by (simp add: black_scholes_price_not_call [OF assms(1)])
  from idx ne index_today_in_labels [OF idx] len row cell show ?thesis
    by blast
qed

lemma index_example_straddle:
  "\<exists>g. index 739000 \<lparr>stock_price = 100, strike_price = 100, premium = 5, contracts = 1,
      option_type = ''straddle'', expiry_date = 739001, implied_volatility = 20,
      stock_min = 99, stock_max = 101\<rparr>
   = Some (ResultsPage \<lparr>rows = [\<lparr>price = 99, pl_total = - 400, pl_per_contract = - 400\<rparr>,
                                 \<lparr>price = 100, pl_total = - 500, pl_per_contract = - 500\<rparr>,
                                 \<lparr>price = 101, pl_total = - 500, pl_per_contract = - 500\<rparr>],
                         price_points = [99, 100, 101], date_labels = [739000, 739001], grid = g\<rparr>)"
  by (simp add: index_def build_price_points_99_101 Let_def expiry_row_def
        black_scholes_price_def upt_rec)

subsection \<open>Numeric bounds\<close>

text \<open>
  Bounds on \<open>\<pi>\<close> from Machin's formula and the alternating series of \<open>arctan\<close>, on
  \<open>e\<^sup>-\<^sup>0\<^sup>.\<^sup>0\<^sup>2\<close> from Maclaurin's theorem, and on \<open>erf(0.2 / \<surd>2)\<close> from its partial sums.
\<close>

lemma arctan_partial_sums:
  fixes x :: real
  assumes "0 \<le> x" and "x \<le> 1"
  shows "(\<Sum>k<2 * n. (- 1) ^ k * (1 / real (k * 2 + 1) * x ^ (k * 2 + 1))) \<le> arctan x"
    and "arctan x \<le> (\<Sum>k<2 * n + 1. (- 1) ^ k * (1 / real (k * 2 + 1) * x ^ (k * 2 + 1)))"
proof -
  let ?a = "\<lambda>k. 1 / real (k * 2 + 1) * x ^ (k * 2 + 1)"
  have abs: "\<bar>x\<bar> \<le> 1" using assms by simp
  have zero: "?a \<longlonglongrightarrow> 0" by (rule zeroseq_arctan_series [OF abs])
  have nonneg: "0 \<le> ?a k" for k using assms by simp
  have dec: "?a (Suc k) \<le> ?a k" for k
  proof -
    have "x ^ (Suc k * 2 + 1) \<le> x ^ (k * 2 + 1)"
      using assms by (intro power_decreasing) simp_all
    moreover have "1 / real (Suc k * 2 + 1) \<le> 1 / real (k * 2 + 1)"
      by (intro divide_left_mono) simp_all
    ultimately show ?thesis
      using assms by (intro mult_mono) simp_all
  qed
  note L = summable_Leibniz' [of ?a, OF zero nonneg dec]
  show "(\<Sum>k<2 * n. (- 1) ^ k * ?a k) \<le> arctan x"
    using L(2) [of n] by (simp only: arctan_series [OF abs])
  show "arctan x \<le> (\<Sum>k<2 * n + 1. (- 1) ^ k * ?a k)"
    using L(4) [of n] by (simp only: arctan_series [OF abs])
qed

lemma pi_bounds: "3.14159 \<le> pi" "pi \<le> 3.14163"
proof -
  have pi: "pi = 16 * arctan (1 / 5) - 4 * arctan (1 / 239)"
    using machin by simp
  have l5: "(\<Sum>k<2 * 2. (- 1) ^ k * (1 / real (k * 2 + 1) * (1 / 5) ^ (k * 2 + 1))) \<le> arctan (1 / 5 :: real)"
    by (rule arctan_partial_sums) simp_all
  have u5: "arctan (1 / 5 :: real) \<le> (\<Sum>k<2 * 1 + 1. (- 1) ^ k * (1 / real (k * 2 + 1) * (1 / 5) ^ (k * 2 + 1)))"
    by (rule arctan_partial_sums) simp_all
  have l239: "(\<Sum>k<2 * 1. (- 1) ^ k * (1 / real (k * 2 + 1) * (1 / 239) ^ (k * 2 + 1))) \<le> arctan (1 / 239 :: real)"
    by (rule arctan_partial_sums) simp_all
  have u239: "arctan (1 / 239 :: real) \<le> (\<Sum>k<2 * 0 + 1. (- 1) ^ k * (1 / real (k * 2 + 1) * (1 / 239) ^ (k * 2 + 1)))"
    by (rule arctan_partial_sums) simp_all
  show "3.14159 \<le> pi"
    unfolding pi using l5 u239 by (simp add: eval_nat_numeral)
  show "pi \<le> 3.14163"
    unfolding pi using u5 l239 by (simp add: eval_nat_numeral)
qed

lemma exp_minus_fiftieth_bounds:
  "0.9801986 \<le> exp (- (1 / 50) :: real)" "exp (- (1 / 50) :: real) \<le> 0.9801987"
proof -
  obtain t :: real where t: "\<bar>t\<bar> \<le> \<bar>- (1 / 50)\<bar>"
    and e: "exp (- (1 / 50) :: real) = (\<Sum>m<4. (- (1 / 50)) ^ m / fact m) + exp t / fact 4 * (- (1 / 50)) ^ 4"
    using Maclaurin_exp_le [of "- (1 / 50)" 4] by blast
  define u where "u = exp t"
  have "0 < u" by (simp add: u_def)
  moreover have "t \<le> 1"
    using t by simp
  then have "exp t \<le> exp 1"
    by (simp only: exp_le_cancel_iff)
  then have "u \<le> 3"
    unfolding u_def using exp_le by (rule order_trans)
  moreover have "exp (- (1 / 50) :: real) = (\<Sum>m<4. (- (1 / 50)) ^ m / fact m) + u / fact 4 * (- (1 / 50)) ^ 4"
    by (simp only: e u_def)
  ultimately show "0.9801986 \<le> exp (- (1 / 50) :: real)" "exp (- (1 / 50) :: real) \<le> 0.9801987"
    by (simp_all add: eval_nat_numeral)
qed

lemma sqrt_two_pi_bounds: "2.50662 \<le> sqrt (2 * pi)" "sqrt (2 * pi) \<le> 2.50665"
proof -
  have "(2.50662 :: real)\<^sup>2 \<le> 2 * pi"
    using pi_bounds(1) by (simp add: power2_eq_square)
  then show "2.50662 \<le> sqrt (2 * pi)"
    by (rule real_le_rsqrt)
  have "2 * pi \<le> (2.50665 :: real)\<^sup>2"
    using pi_bounds(2) by (simp add: power2_eq_square)
  then show "sqrt (2 * pi) \<le> 2.50665"
    by (intro real_le_lsqrt) simp_all
qed

lemma erf_fifth_bounds:
  "0.158518 \<le> erf (1 / (5 * sqrt 2))" "erf (1 / (5 * sqrt 2)) \<le> 0.158520"
proof -
  define z :: real where "z = 1 / (5 * sqrt 2)"
  define w :: real where "w = sqrt (2 * pi)"
  have z0: "0 \<le> z" by (simp add: z_def)
  have "1 \<le> sqrt 2" by simp
  then have "1 \<le> 5 * sqrt 2" by linarith
  then have z1: "z \<le> 1" by (simp add: z_def)
  have z2: "z\<^sup>2 = 1 / 50"
    by (simp add: z_def power_divide power_mult_distrib)
  have zp: "z ^ (2 * k + 1) = z * (1 / 50) ^ k" for k
    by (simp add: power_mult z2)
  have w0: "0 < w" by (simp add: w_def)
  have wz: "2 / sqrt pi * z = 2 / (5 * w)"
    by (simp add: z_def w_def real_sqrt_mult)
  have c0: "erf_coeff z 0 = z"
    by (simp add: erf_coeff_def)
  have c1: "erf_coeff z (Suc 0) = z / 150"
    using zp [of "Suc 0"] by (simp add: erf_coeff_def)
  have c2: "erf_coeff z (Suc (Suc 0)) = z / 25000"
    using zp [of "Suc (Suc 0)"] by (simp add: erf_coeff_def)
  have c3: "erf_coeff z (Suc (Suc (Suc 0))) = z / 5250000"
    using zp [of "Suc (Suc (Suc 0))"] by (simp add: erf_coeff_def)
  have s3: "(\<Sum>k<2 * 1 + 1. (- 1) ^ k * erf_coeff z k) = z * (1 - 1 / 150 + 1 / 25000)"
    by (simp add: eval_nat_numeral c0 c1 c2 algebra_simps)
  have s4: "(\<Sum>k<2 * 2. (- 1) ^ k * erf_coeff z k) = z * (1 - 1 / 150 + 1 / 25000 - 1 / 5250000)"
    by (simp add: eval_nat_numeral c0 c1 c2 c3 algebra_simps)
  have "erf z \<le> 2 / sqrt pi * (z * (1 - 1 / 150 + 1 / 25000))"
    using erf_partial_sums(2) [OF z0 z1, of 1] by (simp only: s3)
  also have "\<dots> = 2 / (5 * w) * (1 - 1 / 150 + 1 / 25000)"
    by (simp only: mult.assoc [symmetric] wz)
  also have "\<dots> \<le> 2 / (5 * 2.50662) * (1 - 1 / 150 + 1 / 25000)"
    using sqrt_two_pi_bounds(1) w0 unfolding w_def [symmetric]
    by (intro mult_right_mono divide_left_mono) simp_all
  also have "\<dots> \<le> 0.158520" by simp
  finally show "erf (1 / (5 * sqrt 2)) \<le> 0.158520"
    by (simp only: z_def)
  have "0.158518 \<le> 2 / (5 * 2.50665) * (1 - 1 / 150 + 1 / 25000 - 1 / 5250000 :: real)"
    by simp
  also have "\<dots> \<le> 2 / (5 * w) * (1 - 1 / 150 + 1 / 25000 - 1 / 5250000)"
    using sqrt_two_pi_bounds(2) w0 unfolding w_def [symmetric]
    by (intro mult_right_mono divide_left_mono) simp_all
  also have "\<dots> = 2 / sqrt pi * (z * (1 - 1 / 150 + 1 / 25000 - 1 / 5250000))"
    by (simp only: mult.assoc [symmetric] wz)
  also have "\<dots> \<le> erf z"
    using erf_partial_sums(1) [OF z0 z1, of 2] by (simp only: s4)
  finally show "0.158518 \<le> erf (1 / (5 * sqrt 2))"
    by (simp only: z_def)
qed

subsection \<open>The concrete scenario\<close>

lemma scenario_d1: "d1 100 100 1 0.02 0.20 = 0.2"
  by (simp add: d1_def)

lemma scenario_d2: "d2 100 100 1 0.02 0.20 = 0"
  by (simp add: d2_def d1_def)

lemma scenario_price:
  "black_scholes_price 100 100 1 0.02 0.20 ''call''
   = Inr (100 * norm_cdf 0.2 - 100 * exp (- 0.02) * norm_cdf 0)"
  by (simp add: black_scholes_price_def d2_def d1_def)

lemma scenario_value_bounds:
  "8.9159 \<le> 100 * norm_cdf 0.2 - 100 * exp (- 0.02) * norm_cdf 0"
  "100 * norm_cdf 0.2 - 100 * exp (- 0.02) * norm_cdf 0 \<le> 8.9161"
proof -
  have v: "100 * norm_cdf 0.2 - 100 * exp (- 0.02) * norm_cdf 0
           = 50 + 50 * erf (1 / (5 * sqrt 2)) - 50 * exp (- (1 / 50))"
    by (simp add: norm_cdf_def erf_0)
  show "8.9159 \<le> 100 * norm_cdf 0.2 - 100 * exp (- 0.02) * norm_cdf 0"
    unfolding v using erf_fifth_bounds(1) exp_minus_fiftieth_bounds(2) by simp
  show "100 * norm_cdf 0.2 - 100 * exp (- 0.02) * norm_cdf 0 \<le> 8.9161"
    unfolding v using erf_fifth_bounds(2) exp_minus_fiftieth_bounds(1) by simp
qed

lemma scenario_cell:
  "daily_loop ''call'' 100 (5 * 100) 1 1 0.02 0.20 [100] Map.empty
   = Inr [''100.00'' \<mapsto> ((100 * norm_cdf 0.2 - 100 * exp (- 0.02) * norm_cdf 0) * 100 - 5 * 100) * 1]"
  using scenario_price by (simp add: format_2f_examples)

section \<open>Properties\<close>

text \<open>
  C1. Whenever \<open>T \<le> 0\<close> or \<open>sigma \<le> 0\<close>, for every \<open>S\<close>, \<open>K\<close>, \<open>r\<close> and option type,
  \<open>black_scholes_price\<close> returns exactly the intrinsic value: \<open>max(0, S - K)\<close> when
  the option type is \<open>"call"\<close>, and \<open>max(0, K - S)\<close> otherwise.
\<close>

theorem black_scholes_price_intrinsic:
  assumes "T \<le> 0 \<or> sigma \<le> 0"
  shows "black_scholes_price S K T r sigma opt =
           Inr (if opt = ''call'' then max 0 (S - K) else max 0 (K - S))"
  using assms by (simp add: black_scholes_price_def)

theorem black_scholes_price_intrinsic_witness:
  "((0::real) \<le> 0 \<or> (0.3::real) \<le> 0)
   \<and> black_scholes_price 105 100 0 0.02 0.3 ''call'' = Inr 5
   \<and> black_scholes_price 105 100 0 0.02 0.3 ''put'' = Inr 0"
  using black_scholes_price_intrinsic [of 0 "0.3" 105 100 "0.02" "''call''"]
        black_scholes_price_intrinsic [of 0 "0.3" 105 100 "0.02" "''put''"]
  by simp

text \<open>
  C2. For \<open>S > 0\<close>, \<open>K > 0\<close>, \<open>T > 0\<close>, \<open>sigma > 0\<close> and every rate \<open>r\<close>,
  \<open>black_scholes_price\<close> returns \<open>S \<Phi>(d1) - K e\<^sup>-\<^sup>r\<^sup>T \<Phi>(d2)\<close> for a call and
  \<open>K e\<^sup>-\<^sup>r\<^sup>T \<Phi>(-d2) - S \<Phi>(-d1)\<close> for a put, where
  \<open>d1 = (ln(S/K) + (r + 0.5 sigma\<^sup>2) T) / (sigma \<surd>T)\<close>, \<open>d2 = d1 - sigma \<surd>T\<close> and
  \<open>\<Phi>(x) = 0.5 (1 + erf(x / \<surd>2))\<close> is what \<open>norm_cdf\<close> computes.
\<close>

theorem black_scholes_price_formula:
  fixes S K T r sigma :: real
  assumes "0 < S" and "0 < K" and "0 < T" and "0 < sigma"
  defines "x1 \<equiv> (ln (S / K) + (r + 0.5 * sigma\<^sup>2) * T) / (sigma * sqrt T)"
  defines "x2 \<equiv> x1 - sigma * sqrt T"
  defines "\<Phi> \<equiv> \<lambda>x. 0.5 * (1 + erf (x / sqrt 2))"
  shows "norm_cdf = \<Phi>
       \<and> black_scholes_price S K T r sigma ''call''
           = Inr (S * \<Phi> x1 - K * exp (- (r * T)) * \<Phi> x2)
       \<and> black_scholes_price S K T r sigma ''put''
           = Inr (K * exp (- (r * T)) * \<Phi> (- x2) - S * \<Phi> (- x1))"
proof -
  have cdf: "norm_cdf = \<Phi>"
    unfolding \<Phi>_def by (rule ext) (simp add: norm_cdf_def)
  have pos: "\<not> (T \<le> 0 \<or> sigma \<le> 0)" "K \<noteq> 0" "\<not> S / K \<le> 0"
    using assms(1-4) by (simp_all add: not_le)
  have sq: "sigma * sigma = sigma\<^sup>2"
    by (simp add: power2_eq_square)
  have c: "black_scholes_price S K T r sigma ''call''
             = Inr (S * \<Phi> x1 - K * exp (- (r * T)) * \<Phi> x2)"
    unfolding black_scholes_price_def cdf x2_def x1_def d2_def d1_def
    using pos by (simp add: sq mult.assoc)
  have p: "black_scholes_price S K T r sigma ''put''
             = Inr (K * exp (- (r * T)) * \<Phi> (- x2) - S * \<Phi> (- x1))"
    unfolding black_scholes_price_def cdf x2_def x1_def d2_def d1_def
    using pos by (simp add: sq mult.assoc)
  from cdf c p show ?thesis by simp
qed

theorem black_scholes_price_formula_witness:
  "(0 :: real) < 100 \<and> (0 :: real) < 1 \<and> (0 :: real) < 0.2
   \<and> black_scholes_price 100 100 1 0.02 0.2 ''call''
       = Inr (100 * (0.5 * (1 + erf (0.2 / sqrt 2))) - 100 * exp (- 0.02) * (0.5 * (1 + erf 0)))
   \<and> black_scholes_price 100 100 1 0.02 0.2 ''put''
       = Inr (100 * exp (- 0.02) * (0.5 * (1 + erf 0)) - 100 * (0.5 * (1 + erf (- 0.2 / sqrt 2))))"
  using black_scholes_price_formula [of 100 100 1 "0.2" "0.02"]
  by (simp add: power2_eq_square)

text \<open>
  C3. On the results page, for every date \<open>d\<close> of the date axis and every price sample
  \<open>p\<close> of the price axis, the pricer returns a value \<open>v\<close> for
  \<open>S = p\<close>, \<open>K = strike\<close>, \<open>T = max(0, days from d to expiry) / 365\<close>, \<open>r = 0.02\<close>,
  \<open>sigma = implied_volatility / 100\<close> and the option type, and the grid holds at the keys
  \<open>d\<close> and \<open>p\<close> formatted to two decimals the value
  \<open>(v \<times> 100 - premium \<times> 100) \<times> contracts\<close>.
\<close>

theorem grid_cell_value:
  assumes "index today f = Some (ResultsPage res)"
    and "d \<in> set (date_labels res)"
    and "p \<in> set (price_points res)"
  shows "\<exists>v m. black_scholes_price p (strike_price f)
                  (real_of_int (max 0 (expiry_date f - d)) / 365) 0.02
                  (implied_volatility f / 100) (option_type f) = Inr v
               \<and> grid res d = Some m
               \<and> m (format_2f p) = Some ((v * 100 - premium f * 100) * of_int (contracts f))"
  using assms by (rule index_grid_cell)

theorem grid_cell_value_witness:
  "\<exists>res v m. index 739000 \<lparr>stock_price = 100, strike_price = 100, premium = 5, contracts = 1,
        option_type = ''call'', expiry_date = 739001, implied_volatility = 20,
        stock_min = 99, stock_max = 101\<rparr> = Some (ResultsPage res)
     \<and> 739000 \<in> set (date_labels res) \<and> 101 \<in> set (price_points res)
     \<and> black_scholes_price 101 100 (1 / 365) 0.02 0.2 ''call'' = Inr v
     \<and> grid res 739000 = Some m
     \<and> m ''101.00'' = Some ((v * 100 - 5 * 100) * 1)"
proof -
  from index_example obtain res where
    idx: "index 739000 \<lparr>stock_price = 100, strike_price = 100, premium = 5, contracts = 1,
        option_type = ''call'', expiry_date = 739001, implied_volatility = 20,
        stock_min = 99, stock_max = 101\<rparr> = Some (ResultsPage res)"
    and d: "739000 \<in> set (date_labels res)" and p: "101 \<in> set (price_points res)"
    by force
  from grid_cell_value [OF idx d p] idx d p show ?thesis
    by (simp add: format_2f_examples)
qed

text \<open>
  C4. When the expiry date is today or later, the grid has an inner mapping at the expiry
  date, and for each price sample it holds the total P/L of the expiry-only table's row for
  that sample; both are \<open>(intrinsic value \<times> 100 - premium \<times> 100) \<times> contracts\<close>.
\<close>

theorem expiry_column_matches_table:
  assumes "index today f = Some (ResultsPage res)"
    and "today \<le> expiry_date f"
  shows "length (rows res) = length (price_points res)
       \<and> (\<exists>m. grid res (expiry_date f) = Some m
            \<and> (\<forall>i < length (price_points res).
                  price (rows res ! i) = price_points res ! i
                \<and> m (format_2f (price_points res ! i)) = Some (pl_total (rows res ! i))
                \<and> pl_total (rows res ! i)
                    = ((if option_type f = ''call''
                        then max 0 (price_points res ! i - strike_price f)
                        else max 0 (strike_price f - price_points res ! i)) * 100
                       - premium f * 100) * of_int (contracts f)))"
proof -
  note r = index_results [OF assms(1)]
  have len: "length (rows res) = length (price_points res)"
    by (simp add: r(2))
  from index_expiry_column [OF assms] obtain m where
    g: "grid res (expiry_date f) = Some m"
    and col: "\<And>p. p \<in> set (price_points res) \<Longrightarrow> m (format_2f p)
                  = Some (((if option_type f = ''call'' then max 0 (p - strike_price f)
                            else max 0 (strike_price f - p)) * 100
                           - premium f * 100) * of_int (contracts f))"
    by blast
  have "price (rows res ! i) = price_points res ! i
      \<and> m (format_2f (price_points res ! i)) = Some (pl_total (rows res ! i))
      \<and> pl_total (rows res ! i)
          = ((if option_type f = ''call''
              then max 0 (price_points res ! i - strike_price f)
              else max 0 (strike_price f - price_points res ! i)) * 100
             - premium f * 100) * of_int (contracts f)"
    if i: "i < length (price_points res)" for i
  proof -
    have row: "rows res ! i = expiry_row (option_type f) (strike_price f) (premium f * 100)
                 (contracts f) (price_points res ! i)"
      using i by (simp add: r(2))
    from i have "price_points res ! i \<in> set (price_points res)" by simp
    from col [OF this] show ?thesis
      by (simp add: row expiry_row_def Let_def)
  qed
  with len g show ?thesis by blast
qed

theorem expiry_column_matches_table_witness:
  "\<exists>res m. index 739000 \<lparr>stock_price = 100, strike_price = 100, premium = 5, contracts = 1,
        option_type = ''call'', expiry_date = 739001, implied_volatility = 20,
        stock_min = 99, stock_max = 101\<rparr> = Some (ResultsPage res)
     \<and> (739000 :: int) \<le> 739001
     \<and> price_points res = [99, 100, 101]
     \<and> map pl_total (rows res) = [- 500, - 500, - 400]
     \<and> grid res 739001 = Some m
     \<and> m ''99.00'' = Some (- 500) \<and> m ''100.00'' = Some (- 500) \<and> m ''101.00'' = Some (- 400)"
proof -
  from index_example obtain res where
    idx: "index 739000 \<lparr>stock_price = 100, strike_price = 100, premium = 5, contracts = 1,
        option_type = ''call'', expiry_date = 739001, implied_volatility = 20,
        stock_min = 99, stock_max = 101\<rparr> = Some (ResultsPage res)"
    and pts: "price_points res = [99, 100, 101]"
    and rws: "map pl_total (rows res) = [- 500, - 500, - 400]"
    by force
  have le: "today \<le> expiry_date \<lparr>stock_price = 100, strike_price = 100, premium = 5, contracts = 1,
        option_type = ''call'', expiry_date = 739001, implied_volatility = 20,
        stock_min = 99, stock_max = 101\<rparr>" if "today = 739000" for today :: int
    using that by simp
  from expiry_column_matches_table [OF idx le [OF refl]] idx pts rws show ?thesis
    by (auto simp: format_2f_examples nth_Cons' less_Suc_eq all_conj_distrib)
qed

text \<open>
  C5. \<open>build_price_points(10, 20, step=1)\<close> returns the 11-element list
  \<open>[10.00, 11.00, \<dots>, 20.00]\<close> and \<open>build_price_points(10, 10)\<close> returns \<open>[10.00]\<close>, in exact
  arithmetic and in binary64 alike; and for every \<open>stock_min \<le> stock_max\<close> with step 1.0
  the function returns (in exact arithmetic) a non-empty, strictly increasing list whose
  elements have at most two decimals.
\<close>

theorem build_price_points_axis:
  assumes "smin \<le> smax"
  shows "build_price_points 10 20 1
           = Some [10.00, 11.00, 12.00, 13.00, 14.00, 15.00, 16.00, 17.00, 18.00, 19.00, 20.00]
       \<and> length [10.00, 11.00, 12.00, 13.00, 14.00, 15.00, 16.00, 17.00, 18.00, 19.00, 20.00 :: real]
           = 11
       \<and> build_price_points 10 10 1 = Some [10.00]
       \<and> build_price_points_fp binary64 10 20 1
           = Some [10.00, 11.00, 12.00, 13.00, 14.00, 15.00, 16.00, 17.00, 18.00, 19.00, 20.00]
       \<and> build_price_points_fp binary64 10 10 1 = Some [10.00]
       \<and> (\<exists>ps. build_price_points smin smax 1.0 = Some ps \<and> ps \<noteq> [] \<and> sorted_wrt (<) ps
              \<and> (\<forall>p \<in> set ps. \<exists>c :: int. p = of_int c / 100))"
proof (intro conjI)
  show "build_price_points 10 20 1
          = Some [10.00, 11.00, 12.00, 13.00, 14.00, 15.00, 16.00, 17.00, 18.00, 19.00, 20.00]"
    using build_price_points_10_20 by simp
  show "length [10.00, 11.00, 12.00, 13.00, 14.00, 15.00, 16.00, 17.00, 18.00, 19.00, 20.00 :: real]
          = 11"
    by simp
  show "build_price_points 10 10 1 = Some [10.00]"
    using build_price_points_10_10 by simp
  show "build_price_points_fp binary64 10 20 1
          = Some [10.00, 11.00, 12.00, 13.00, 14.00, 15.00, 16.00, 17.00, 18.00, 19.00, 20.00]"
    using build_price_points_binary64_10_20 by simp
  show "build_price_points_fp binary64 10 10 1 = Some [10.00]"
    using build_price_points_binary64_10_10 by simp
  have one: "(1.0 :: real) = 1" by simp
  show "\<exists>ps. build_price_points smin smax 1.0 = Some ps \<and> ps \<noteq> [] \<and> sorted_wrt (<) ps
              \<and> (\<forall>p \<in> set ps. \<exists>c :: int. p = of_int c / 100)"
    unfolding one by (rule build_price_points_step_1 [OF assms])
qed

theorem build_price_points_axis_witness:
  "(99.5 :: real) \<le> 101.2
   \<and> build_price_points 10 20 1 = Some [10, 11, 12, 13, 14, 15, 16, 17, 18, 19, 20]
   \<and> build_price_points 10 10 1 = Some [10]
   \<and> build_price_points_fp binary64 10 20 1 = Some [10, 11, 12, 13, 14, 15, 16, 17, 18, 19, 20]
   \<and> (\<exists>ps. build_price_points 99.5 101.2 1 = Some ps \<and> ps \<noteq> [] \<and> sorted_wrt (<) ps)"
proof -
  have le: "(99.5 :: real) \<le> 101.2" by simp
  from build_price_points_axis [OF le] le show ?thesis
    by (simp del: sorted_wrt.simps) blast
qed

text \<open>
  C6. The date axis of the results page has \<open>max(0, days from today to expiry) + 1\<close>
  entries, one per day from today on; its first entry is today; its last entry is the
  expiry date when the expiry is not in the past; and when the expiry is before today the
  axis is the single entry today.
\<close>

theorem date_axis_shape:
  assumes "index today f = Some (ResultsPage res)"
  shows "date_labels res = map (\<lambda>k. today + int k) [0..<nat (max 0 (expiry_date f - today)) + 1]
       \<and> length (date_labels res) = nat (max 0 (expiry_date f - today)) + 1
       \<and> hd (date_labels res) = today
       \<and> (today \<le> expiry_date f \<longrightarrow> last (date_labels res) = expiry_date f)
       \<and> (expiry_date f < today \<longrightarrow> date_labels res = [today])"
  using index_date_labels [OF assms] index_date_axis [OF assms] by blast

theorem date_axis_shape_witness:
  "(\<exists>res. index 739000 \<lparr>stock_price = 100, strike_price = 100, premium = 5, contracts = 1,
        option_type = ''call'', expiry_date = 739001, implied_volatility = 20,
        stock_min = 99, stock_max = 101\<rparr> = Some (ResultsPage res)
      \<and> (739000 :: int) \<le> 739001
      \<and> length (date_labels res) = 2 \<and> hd (date_labels res) = 739000
      \<and> last (date_labels res) = 739001)
   \<and> (\<exists>res. index 739000 \<lparr>stock_price = 100, strike_price = 100, premium = 5, contracts = 1,
        option_type = ''put'', expiry_date = 738990, implied_volatility = 20,
        stock_min = 99, stock_max = 101\<rparr> = Some (ResultsPage res)
      \<and> (738990 :: int) < 739000
      \<and> length (date_labels res) = 1 \<and> date_labels res = [739000])"
proof -
  from index_example obtain res where
    idx: "index 739000 \<lparr>stock_price = 100, strike_price = 100, premium = 5, contracts = 1,
        option_type = ''call'', expiry_date = 739001, implied_volatility = 20,
        stock_min = 99, stock_max = 101\<rparr> = Some (ResultsPage res)"
    by blast
  from index_example_past obtain res' where
    idx': "index 739000 \<lparr>stock_price = 100, strike_price = 100, premium = 5, contracts = 1,
        option_type = ''put'', expiry_date = 738990, implied_volatility = 20,
        stock_min = 99, stock_max = 101\<rparr> = Some (ResultsPage res')"
    by blast
  from date_axis_shape [OF idx] date_axis_shape [OF idx'] idx idx' show ?thesis
    by simp
qed

text \<open>
  C7. At the money (\<open>S = K\<close>, \<open>S > 0\<close>), for \<open>T > 0\<close>, \<open>sigma > 0\<close> and every rate \<open>r\<close>, the
  put and call values that \<open>black_scholes_price\<close> returns satisfy
  \<open>put - call = K e\<^sup>-\<^sup>r\<^sup>T - S\<close> (put-call parity), exactly over the reals.
\<close>

theorem put_call_parity:
  fixes S K T r sigma :: real
  assumes "S = K" and "0 < S" and "0 < T" and "0 < sigma"
  shows "\<exists>c p. black_scholes_price S K T r sigma ''call'' = Inr c
             \<and> black_scholes_price S K T r sigma ''put'' = Inr p
             \<and> p - c = K * exp (- r * T) - S"
  using assms by (intro put_call_parity_general) simp_all

theorem put_call_parity_witness:
  "(100 :: real) = 100 \<and> (0 :: real) < 100 \<and> (0 :: real) < 1 \<and> (0 :: real) < 0.2
   \<and> (\<exists>c p. black_scholes_price 100 100 1 0.02 0.2 ''call'' = Inr c
          \<and> black_scholes_price 100 100 1 0.02 0.2 ''put'' = Inr p
          \<and> p - c = 100 * exp (- 0.02 * 1) - 100)"
  using put_call_parity [of 100 100 1 "0.2" "0.02"] by simp

text \<open>
  C8, as amended. With \<open>S = 100\<close>, \<open>K = 100\<close>, \<open>T = 1\<close>, \<open>r = 0.02\<close>, \<open>sigma = 0.20\<close> and a
  call: \<open>d1\<close> is 0.2000 and \<open>d2\<close> is 0.0000 to four decimals, the call value
  \<open>100 \<Phi>(d1) - 100 e\<^sup>-\<^sup>0\<^sup>.\<^sup>0\<^sup>2 \<Phi>(d2)\<close> is 8.916 to three decimals, and with premium 5 and one
  contract the grid cell at price 100 holds \<open>(value \<times> 100 - 5 \<times> 100) \<times> 1\<close>, which is 391.6
  to one decimal.
\<close>

theorem concrete_scenario:
  defines "v \<equiv> 100 * norm_cdf 0.2 - 100 * exp (- 0.02) * norm_cdf 0"
  shows "\<bar>d1 100 100 1 0.02 0.20 - 0.2000\<bar> \<le> 0.00005
       \<and> \<bar>d2 100 100 1 0.02 0.20 - 0.0000\<bar> \<le> 0.00005
       \<and> black_scholes_price 100 100 1 0.02 0.20 ''call'' = Inr v
       \<and> \<bar>v - 8.916\<bar> \<le> 0.0005
       \<and> daily_loop ''call'' 100 (5 * 100) 1 1 0.02 0.20 [100] Map.empty
           = Inr [''100.00'' \<mapsto> (v * 100 - 5 * 100) * 1]
       \<and> \<bar>(v * 100 - 5 * 100) * 1 - 391.6\<bar> \<le> 0.05"
proof -
  have lo: "8.9159 \<le> v" and hi: "v \<le> 8.9161"
    unfolding v_def by (rule scenario_value_bounds)+
  have "\<bar>d1 100 100 1 0.02 0.20 - 0.2000\<bar> \<le> 0.00005"
    by (simp only: scenario_d1) simp
  moreover have "\<bar>d2 100 100 1 0.02 0.20 - 0.0000\<bar> \<le> 0.00005"
    by (simp only: scenario_d2) simp
  moreover have "\<bar>v - 8.916\<bar> \<le> 0.0005"
    using lo hi by (simp add: abs_if)
  moreover have "\<bar>(v * 100 - 5 * 100) * 1 - 391.6\<bar> \<le> 0.05"
    using lo hi by (simp add: abs_if)
  moreover note scenario_price [folded v_def] scenario_cell [folded v_def]
  ultimately show ?thesis by blast
qed

text \<open>
  C8, as stated, fails: \<open>d1\<close> and \<open>d2\<close> are 0.01 away from 0.2100 and 0.0100, the call
  value is more than 0.3 below 9.227, and the P/L more than 30 below 422.7.
\<close>

theorem concrete_scenario_counterexample:
  defines "v \<equiv> 100 * norm_cdf 0.2 - 100 * exp (- 0.02) * norm_cdf 0"
  shows "0.005 < \<bar>d1 100 100 1 0.02 0.20 - 0.2100\<bar>
       \<and> 0.005 < \<bar>d2 100 100 1 0.02 0.20 - 0.0100\<bar>
       \<and> black_scholes_price 100 100 1 0.02 0.20 ''call'' = Inr v
       \<and> 0.3 < \<bar>v - 9.227\<bar>
       \<and> 30 < \<bar>(v * 100 - 5 * 100) * 1 - 422.7\<bar>"
proof -
  have lo: "8.9159 \<le> v" and hi: "v \<le> 8.9161"
    unfolding v_def by (rule scenario_value_bounds)+
  have "0.005 < \<bar>d1 100 100 1 0.02 0.20 - 0.2100\<bar>"
    by (simp only: scenario_d1) simp
  moreover have "0.005 < \<bar>d2 100 100 1 0.02 0.20 - 0.0100\<bar>"
    by (simp only: scenario_d2) simp
  moreover have "0.3 < \<bar>v - 9.227\<bar>"
    using lo hi by (simp add: abs_if)
  moreover have "30 < \<bar>(v * 100 - 5 * 100) * 1 - 422.7\<bar>"
    using lo hi by (simp add: abs_if)
  moreover note scenario_price [folded v_def]
  ultimately show ?thesis by blast
qed

text \<open>
  C9. The claim is that \<open>build_price_points\<close> returns a finite list for every
  \<open>step > 0\<close> and all finite \<open>stock_min\<close>, \<open>stock_max\<close>. In binary64 the code does not:
  with \<open>stock_min = stock_max = 2\<^sup>5\<^sup>3\<close> and \<open>step = 1\<close> the sum \<open>current + step\<close> rounds back
  to \<open>current\<close>, the test \<open>current <= stock_max + 1e-9\<close> stays true and the loop never
  exits, where exact arithmetic returns the one sample \<open>2\<^sup>5\<^sup>3\<close>.
\<close>

theorem build_price_points_binary64_diverges:
  "(0 :: real) < 1
   \<and> build_price_points_fp binary64 (2 ^ 53) (2 ^ 53) 1 = None
   \<and> build_price_points (2 ^ 53) (2 ^ 53) 1 = Some [2 ^ 53]"
proof (intro conjI)
  show "(0 :: real) < 1" by simp
  show "build_price_points_fp binary64 (2 ^ 53) (2 ^ 53) 1 = None"
    by (simp only: build_price_points_fp_def price_loop_stuck)
  show "build_price_points (2 ^ 53) (2 ^ 53) 1 = Some [2 ^ 53]"
    by (simp add: build_price_points_def build_price_points_fp_def price_loop.simps
          round_py_def round_half_even_def)
qed

text \<open>
  C10. For every option type string other than \<open>"call"\<close>, \<open>black_scholes_price\<close> returns
  what it returns for \<open>"put"\<close>: the intrinsic value \<open>max(0, K - S)\<close> when \<open>T \<le> 0\<close> or
  \<open>sigma \<le> 0\<close>, the put formula for positive arguments. The view answers such a form
  exactly as it answers the same form with \<open>"put"\<close>, and it signals no error: for a
  positive strike and a price range that starts at one cent or more it renders the results
  page, whose table rows carry the put intrinsic value and whose grid cells carry the put
  price of \<open>black_scholes_price\<close>.
\<close>

theorem unrecognised_option_type_is_put:
  fixes S K T r sigma :: real
  assumes "opt \<noteq> ''call''"
  shows "black_scholes_price S K T r sigma opt = black_scholes_price S K T r sigma ''put''
       \<and> (T \<le> 0 \<or> sigma \<le> 0 \<longrightarrow> black_scholes_price S K T r sigma opt = Inr (max 0 (K - S)))
       \<and> (0 < S \<and> 0 < K \<and> 0 < T \<and> 0 < sigma \<longrightarrow>
            black_scholes_price S K T r sigma opt
            = Inr (K * exp (- (r * T))
                     * norm_cdf (- ((ln (S / K) + (r + 0.5 * sigma\<^sup>2) * T) / (sigma * sqrt T)
                                   - sigma * sqrt T))
                   - S * norm_cdf (- ((ln (S / K) + (r + 0.5 * sigma\<^sup>2) * T) / (sigma * sqrt T)))))
       \<and> index today (f\<lparr>option_type := opt\<rparr>) = index today (f\<lparr>option_type := ''put''\<rparr>)
       \<and> (\<not> stock_max f < stock_min f \<and> 0 < strike_price f \<and> 1 / 100 \<le> stock_min f \<longrightarrow>
            (\<exists>res. index today (f\<lparr>option_type := opt\<rparr>) = Some (ResultsPage res)
               \<and> price_points res \<noteq> [] \<and> today \<in> set (date_labels res)
               \<and> length (rows res) = length (price_points res)
               \<and> (\<forall>i < length (price_points res).
                     price (rows res ! i) = price_points res ! i
                   \<and> pl_total (rows res ! i)
                       = (max 0 (strike_price f - price_points res ! i) * 100 - premium f * 100)
                         * of_int (contracts f))
               \<and> (\<forall>d \<in> set (date_labels res). \<forall>p \<in> set (price_points res).
                     \<exists>v m. black_scholes_price p (strike_price f)
                              (real_of_int (max 0 (expiry_date f - d)) / 365) 0.02
                              (implied_volatility f / 100) ''put'' = Inr v
                          \<and> grid res d = Some m
                          \<and> m (format_2f p)
                              = Some ((v * 100 - premium f * 100) * of_int (contracts f)))))"
proof -
  have "black_scholes_price S K T r sigma opt = Inr (max 0 (K - S))" if "T \<le> 0 \<or> sigma \<le> 0"
    using that assms by (simp add: black_scholes_price_def)
  moreover have "black_scholes_price S K T r sigma opt
            = Inr (K * exp (- (r * T))
                     * norm_cdf (- ((ln (S / K) + (r + 0.5 * sigma\<^sup>2) * T) / (sigma * sqrt T)
                                   - sigma * sqrt T))
                   - S * norm_cdf (- ((ln (S / K) + (r + 0.5 * sigma\<^sup>2) * T) / (sigma * sqrt T))))"
    if "0 < S \<and> 0 < K \<and> 0 < T \<and> 0 < sigma"
  proof -
    from that have "\<not> (T \<le> 0 \<or> sigma \<le> 0)" "K \<noteq> 0" "\<not> S / K \<le> 0"
      by (simp_all add: not_le)
    then show ?thesis
      using assms by (simp add: black_scholes_price_def d1_def d2_def power2_eq_square mult.assoc)
  qed
  moreover note black_scholes_price_not_call [OF assms, of S K T r sigma]
    index_not_call [OF assms, of today f]
  moreover have "\<exists>res. index today (f\<lparr>option_type := opt\<rparr>) = Some (ResultsPage res)
               \<and> price_points res \<noteq> [] \<and> today \<in> set (date_labels res)
               \<and> length (rows res) = length (price_points res)
               \<and> (\<forall>i < length (price_points res).
                     price (rows res ! i) = price_points res ! i
                   \<and> pl_total (rows res ! i)
                       = (max 0 (strike_price f - price_points res ! i) * 100 - premium f * 100)
                         * of_int (contracts f))
               \<and> (\<forall>d \<in> set (date_labels res). \<forall>p \<in> set (price_points res).
                     \<exists>v m. black_scholes_price p (strike_price f)
                              (real_of_int (max 0 (expiry_date f - d)) / 365) 0.02
                              (implied_volatility f / 100) ''put'' = Inr v
                          \<and> grid res d = Some m
                          \<and> m (format_2f p)
                              = Some ((v * 100 - premium f * 100) * of_int (contracts f)))"
    if "\<not> stock_max f < stock_min f \<and> 0 < strike_price f \<and> 1 / 100 \<le> stock_min f"
    using that by (intro index_not_call_page [OF assms]) simp_all
  ultimately show ?thesis by (intro conjI impI)
qed

theorem unrecognised_option_type_is_put_witness:
  "''straddle'' \<noteq> ''call''
   \<and> black_scholes_price 90 100 0 0.02 0.2 ''straddle'' = Inr 10
   \<and> black_scholes_price 100 100 1 0.02 0.2 ''straddle''
       = Inr (100 * exp (- (2 / 100)) * norm_cdf 0 - 100 * norm_cdf (- (2 / 10)))
   \<and> (0 :: real) < 100 \<and> (1 / 100 :: real) \<le> 99
   \<and> (\<exists>res v m m'.
         index 739000 \<lparr>stock_price = 100, strike_price = 100, premium = 5, contracts = 1,
           option_type = ''straddle'', expiry_date = 739001, implied_volatility = 20,
           stock_min = 99, stock_max = 101\<rparr> = Some (ResultsPage res)
       \<and> index 739000 \<lparr>stock_price = 100, strike_price = 100, premium = 5, contracts = 1,
           option_type = ''put'', expiry_date = 739001, implied_volatility = 20,
           stock_min = 99, stock_max = 101\<rparr> = Some (ResultsPage res)
       \<and> price_points res = [99, 100, 101]
       \<and> date_labels res = [739000, 739001]
       \<and> map pl_total (rows res) = [- 400, - 500, - 500]
       \<and> black_scholes_price 99 100 (1 / 365) 0.02 0.2 ''put'' = Inr v
       \<and> grid res 739000 = Some m
       \<and> m ''99.00'' = Some ((v * 100 - 5 * 100) * 1)
       \<and> grid res 739001 = Some m'
       \<and> m' ''99.00'' = Some (- 400))"
proof -
  let ?f = "\<lparr>stock_price = 100, strike_price = 100, premium = 5, contracts = 1,
           option_type = ''put'', expiry_date = 739001, implied_volatility = 20,
           stock_min = 99, stock_max = 101\<rparr>"
  have ne: "''straddle'' \<noteq> ''call''" by simp
  note t1 = unrecognised_option_type_is_put [OF ne, of 90 100 0 "0.02" "0.2" 739000 ?f]
  note t2 = unrecognised_option_type_is_put [OF ne, of 100 100 1 "0.02" "0.2" 739000 ?f]
  note pricer_intrinsic = t1 [THEN conjunct2, THEN conjunct1]
  note pricer_put = t2 [THEN conjunct2, THEN conjunct2, THEN conjunct1]
  note same = t1 [THEN conjunct2, THEN conjunct2, THEN conjunct2, THEN conjunct1]
  note page = t1 [THEN conjunct2, THEN conjunct2, THEN conjunct2, THEN conjunct2]
  from pricer_intrinsic have a: "black_scholes_price 90 100 0 0.02 0.2 ''straddle'' = Inr 10"
    by simp
  from pricer_put have b: "black_scholes_price 100 100 1 0.02 0.2 ''straddle''
       = Inr (100 * exp (- (2 / 100)) * norm_cdf 0 - 100 * norm_cdf (- (2 / 10)))"
    by (simp add: power2_eq_square)
  from same have eq: "index 739000 (?f\<lparr>option_type := ''straddle''\<rparr>) = index 739000 ?f"
    by simp
  have hyp: "\<not> stock_max ?f < stock_min ?f \<and> 0 < strike_price ?f \<and> 1 / 100 \<le> stock_min ?f"
    by simp
  from page [THEN mp, OF hyp] obtain res where
    idx0: "index 739000 (?f\<lparr>option_type := ''straddle''\<rparr>) = Some (ResultsPage res)"
    and cells0: "\<forall>d \<in> set (date_labels res). \<forall>p \<in> set (price_points res).
                     \<exists>v m. black_scholes_price p (strike_price ?f)
                              (real_of_int (max 0 (expiry_date ?f - d)) / 365) 0.02
                              (implied_volatility ?f / 100) ''put'' = Inr v
                          \<and> grid res d = Some m
                          \<and> m (format_2f p)
                              = Some ((v * 100 - premium ?f * 100) * of_int (contracts ?f))"
    by blast
  from idx0 have idx: "index 739000 \<lparr>stock_price = 100, strike_price = 100, premium = 5, contracts = 1,
           option_type = ''straddle'', expiry_date = 739001, implied_volatility = 20,
           stock_min = 99, stock_max = 101\<rparr> = Some (ResultsPage res)"
    by simp
  have cells: "\<exists>v m. black_scholes_price p 100
                              (real_of_int (max 0 (739001 - d)) / 365) 0.02
                              (20 / 100) ''put'' = Inr v
                          \<and> grid res d = Some m
                          \<and> m (format_2f p) = Some ((v * 100 - 5 * 100) * of_int 1)"
    if "d \<in> set (date_labels res)" and "p \<in> set (price_points res)" for d p
    using cells0 that by simp
  from index_example_straddle idx have pts: "price_points res = [99, 100, 101]"
    and dl: "date_labels res = [739000, 739001]"
    and rws: "map pl_total (rows res) = [- 400, - 500, - 500]"
    by auto
  from cells [of 739000 99] obtain v m where
    c1: "black_scholes_price 99 100 (1 / 365) 0.02 0.2 ''put'' = Inr v"
       "grid res 739000 = Some m" "m ''99.00'' = Some ((v * 100 - 5 * 100) * 1)"
    by (auto simp: pts dl format_2f_examples)
  from cells [of 739001 99] obtain m' where
    c2: "grid res 739001 = Some m'" "m' ''99.00'' = Some (- 400)"
    by (auto simp: pts dl format_2f_examples black_scholes_price_def)
  from eq idx have idx': "index 739000 ?f = Some (ResultsPage res)"
    by simp
  from a b ne idx idx' pts dl rws c1 c2 show ?thesis
    by auto
qed

end
